theory Spec2Isabelle
  imports Complex_Main
begin

section \<open>The RHCOS import pipeline (import\_rhcos.py)\<close>

text \<open>
  The script publishes the RHCOS disk image of an OpenShift release as a machine image:
  resolve the RHCOS version from the release text, download and unpack the disk image,
  upload it to S3, import it as a snapshot (polled), register an image and make it public.
  Every stage first looks for the output of an earlier run.

  The embedding is shallow. The job object is a record, the outside world (HTTP server,
  local files, S3, EC2, the clock) is a record, and each method is a function from the
  pair of both to a result and the new pair. An exception is the left summand of the
  result. Every call that leaves the process is written to a trace, so that "this call
  was not made" is a statement about the trace.
\<close>

subsection \<open>Strings\<close>

text \<open>
  Python's \<^verbatim>\<open>str\<close> is a list of characters here. Isabelle's \<open>char\<close> has 256 values,
  so the model covers texts of code points below 256; among them the decimal digits that
  \<^verbatim>\<open>\d\<close> accepts are exactly \<^verbatim>\<open>0\<close> to \<^verbatim>\<open>9\<close>.
\<close>

definition is_digit :: "char \<Rightarrow> bool" where
  "is_digit c \<longleftrightarrow> c \<in> set ''0123456789''"

text \<open>\<^verbatim>\<open>s.startswith(p)\<close>\<close>

fun startswith :: "string \<Rightarrow> string \<Rightarrow> bool" where
  "startswith s [] = True"
| "startswith [] (c # p) = False"
| "startswith (d # s) (c # p) = (d = c \<and> startswith s p)"

text \<open>\<^verbatim>\<open>s.split(c)\<close> for a one-character separator: never an empty list.\<close>

fun split_on :: "char \<Rightarrow> string \<Rightarrow> string list" where
  "split_on c [] = [[]]"
| "split_on c (x # xs) =
     (if x = c then [] # split_on c xs
      else (case split_on c xs of
              [] \<Rightarrow> [[x]]
            | y # ys \<Rightarrow> (x # y) # ys))"

text \<open>\<^verbatim>\<open>sep.join(parts)\<close> for parts that are all strings.\<close>

fun str_join :: "string \<Rightarrow> string list \<Rightarrow> string" where
  "str_join sep [] = []"
| "str_join sep [x] = x"
| "str_join sep (x # y # ys) = x @ sep @ str_join sep (y # ys)"

text \<open>\<^verbatim>\<open>'.'.join(version.split('.')[0:2])\<close>: the major.minor prefix of a version.\<close>

definition major_minor :: "string \<Rightarrow> string" where
  "major_minor v = str_join ''.'' (take 2 (split_on CHR ''.'' v))"

text \<open>\<^verbatim>\<open>'{}'.format(x)\<close> for an optional string: \<^verbatim>\<open>None\<close> prints as the text None.\<close>

fun fmt :: "string option \<Rightarrow> string" where
  "fmt None = ''None''"
| "fmt (Some s) = s"

text \<open>
  \<^verbatim>\<open>re.search(r'machine-os ([\d\.\-]+)', text, re.MULTILINE)\<close>: the leftmost position
  where the literal is followed by at least one character of the class; group 1 is the
  longest run of class characters there (the quantifier is greedy and nothing follows
  it). The pattern has no anchor, so the flag changes nothing.
\<close>

definition version_char :: "char \<Rightarrow> bool" where
  "version_char c \<longleftrightarrow> is_digit c \<or> c = CHR ''.'' \<or> c = CHR ''-''"

fun search_machine_os :: "string \<Rightarrow> string option" where
  "search_machine_os [] = None"
| "search_machine_os (c # cs) =
     (let g = takeWhile version_char (drop 11 (c # cs)) in
      if startswith (c # cs) ''machine-os '' \<and> g \<noteq> [] then Some g
      else search_machine_os cs)"

text \<open>
  \<^verbatim>\<open>os.path.join(a, b)\<close> of posixpath, for two arguments.
\<close>

definition path_join :: "string \<Rightarrow> string \<Rightarrow> string" where
  "path_join a b =
     (if startswith b ''/'' then b
      else if a = [] \<or> last a = CHR ''/'' then a @ b
      else a @ ''/'' @ b)"

subsection \<open>Errors and calls\<close>

text \<open>
  The two exceptions the script raises itself carry what their message is formatted
  from: the size in bytes, and the import task id. The others come from the libraries:
  \<^verbatim>\<open>str.join\<close> over a list that holds \<^verbatim>\<open>None\<close>, requests, botocore (a refused call, or a
  parameter that is not a string), gzip, a file that is not there, the decoding of
  the upgrade graph, and \<^verbatim>\<open>int\<close> of a text that is no number or has more digits than the
  interpreter converts.
\<close>

datatype error =
    FileSizeTooSmall nat
  | ImportTimedOut string
  | TypeError
  | RequestError string
  | ClientError string
  | ParamValidationError
  | GzipError string
  | FileNotFoundError string
  | GraphError string
  | ValueError

text \<open>What the process does to the outside, in the order it does it.\<close>

datatype event =
    LogInfo string
  | LogError error
  | HttpGet string
  | GetGraph string
  | OpenWrite string
  | Gunzip string string
  | RemoveFile string
  | ListObjectsV2 string string
  | UploadFileobj string string string
  | DescribeSnapshots string
  | ImportSnapshot string string string
  | DescribeImportSnapshotTasks string
  | CreateTags string string
  | Sleep nat
  | DescribeImages string
  | RegisterImage string string string
  | ModifyImageAttribute string

subsection \<open>The job and the world\<close>

text \<open>
  \<^verbatim>\<open>class OpenShiftRelease\<close>: the release version, the bucket, and the five attributes that
  cache the derived fields (\<^verbatim>\<open>_data\<close>, \<^verbatim>\<open>_rhcos_filename\<close>, \<^verbatim>\<open>_rhcos_path\<close>, \<^verbatim>\<open>_rhcos_url\<close>,
  \<^verbatim>\<open>_rhcos_version\<close>), \<^verbatim>\<open>None\<close> at first.
\<close>

record job =
  version :: string
  s3_bucket :: string
  data_cache :: "string option"
  rhcos_filename_cache :: "string option"
  rhcos_path_cache :: "string option"
  rhcos_url_cache :: "string option"
  rhcos_version_cache :: "string option"

definition OpenShiftRelease :: "string \<Rightarrow> string \<Rightarrow> job" where
  "OpenShiftRelease v b =
     \<lparr>version = v, s3_bucket = b, data_cache = None, rhcos_filename_cache = None,
      rhcos_path_cache = None, rhcos_url_cache = None, rhcos_version_cache = None\<rparr>"

record s3_object =
  obj_bucket :: string
  obj_key :: string
  obj_body :: string

record snapshot =
  snap_id :: string
  snap_owner_self :: bool
  snap_tags :: "(string \<times> string) list"

record image =
  image_id :: string
  image_name :: string
  image_description :: string
  image_snapshot :: string
  image_owner_self :: bool
  image_public :: bool

text \<open>
  The world. The first seven fields are what the outside answers and never change:
  the body behind each URL (or the message of the exception requests raises), the
  versions of the nodes of each channel of the upgrade graph (or the message of the
  exception), the temporary directory, what unpacking a file gives (the bytes written,
  and the message of the exception that ended it if one did), which provider calls are
  refused (with the message), the status and snapshot id an import task reports at each
  time, and the identifiers the provider hands out. The others are state: the next
  identifier, the seconds slept so far, the local files, the bucket contents, the
  snapshots, the images and the trace.
\<close>

record world =
  http_get :: "string \<Rightarrow> string + string"
  graph_nodes :: "string \<Rightarrow> string + string list"
  tmpdir :: string
  gunzip :: "string \<Rightarrow> string \<times> string option"
  fault :: "event \<Rightarrow> string option"
  task_status :: "string \<Rightarrow> nat \<Rightarrow> string \<times> string"
  id_supply :: "nat \<Rightarrow> string"
  id_next :: nat
  clock :: nat
  fs :: "string \<Rightarrow> string option"
  s3 :: "s3_object list"
  snapshots :: "snapshot list"
  images :: "image list"
  trace :: "event list"

type_synonym st = "job \<times> world"

type_synonym 'a prog = "st \<Rightarrow> (error + 'a) \<times> st"

subsection \<open>Sequencing\<close>

definition ret :: "'a \<Rightarrow> 'a prog" where
  "ret x s = (Inr x, s)"

definition raise :: "error \<Rightarrow> 'a prog" where
  "raise e s = (Inl e, s)"

text \<open>Run \<open>m\<close>, then \<open>f\<close> on its value; an exception of \<open>m\<close> ends the run, effects kept.\<close>

definition seq :: "'a prog \<Rightarrow> ('a \<Rightarrow> 'b prog) \<Rightarrow> 'b prog" where
  "seq m f s = (case m s of (Inl e, s') \<Rightarrow> (Inl e, s') | (Inr x, s') \<Rightarrow> f x s')"

definition get_job :: "job prog" where
  "get_job s = (Inr (fst s), s)"

definition get_world :: "world prog" where
  "get_world s = (Inr (snd s), s)"

definition set_job :: "(job \<Rightarrow> job) \<Rightarrow> unit prog" where
  "set_job f s = (Inr (), (f (fst s), snd s))"

definition set_world :: "(world \<Rightarrow> world) \<Rightarrow> unit prog" where
  "set_world f s = (Inr (), (fst s, f (snd s)))"

text \<open>Write an event to the trace.\<close>

definition emit :: "event \<Rightarrow> unit prog" where
  "emit ev = set_world (\<lambda>w. w\<lparr>trace := trace w @ [ev]\<rparr>)"

text \<open>\<^verbatim>\<open>logger.info(msg)\<close>\<close>

definition info :: "string \<Rightarrow> unit prog" where
  "info msg = emit (LogInfo msg)"

text \<open>A call to the provider: written to the trace, then refused or not.\<close>

definition provider_call :: "event \<Rightarrow> unit prog" where
  "provider_call ev =
     seq (emit ev) (\<lambda>_. seq get_world (\<lambda>w.
       case fault w ev of Some m \<Rightarrow> raise (ClientError m) | None \<Rightarrow> ret ()))"

text \<open>\<^verbatim>\<open>requests.get(url)\<close>: the body, whatever the status code, or an exception.\<close>

definition requests_get :: "string \<Rightarrow> string prog" where
  "requests_get url =
     seq (emit (HttpGet url)) (\<lambda>_. seq get_world (\<lambda>w.
       case http_get w url of Inl m \<Rightarrow> raise (RequestError m) | Inr body \<Rightarrow> ret body))"

text \<open>
  \<^verbatim>\<open>if not self._x\<close> takes \<^verbatim>\<open>None\<close> and the empty string alike for "not computed yet":
  \<open>cached\<close> is what the test lets through.
\<close>

fun cached :: "string option \<Rightarrow> string option" where
  "cached None = None"
| "cached (Some s) = (if s = [] then None else Some s)"

subsection \<open>The derived fields\<close>

definition release_txt_url :: "string \<Rightarrow> string" where
  "release_txt_url v =
     ''http://mirror.openshift.com/pub/openshift-v4/clients/ocp/'' @ v @ ''/release.txt''"

text \<open>\<^verbatim>\<open>OpenShiftRelease.data\<close>\<close>

definition data :: "string prog" where
  "data =
     seq get_job (\<lambda>j.
       case cached (data_cache j) of
         Some d \<Rightarrow> ret d
       | None \<Rightarrow>
           seq (requests_get (release_txt_url (version j))) (\<lambda>text.
           seq (set_job (\<lambda>j. j\<lparr>data_cache := Some text\<rparr>)) (\<lambda>_.
           ret text)))"

text \<open>\<^verbatim>\<open>OpenShiftRelease.rhcos_version\<close>: \<open>None\<close> is the not-found result.\<close>

definition rhcos_version :: "string option prog" where
  "rhcos_version =
     seq get_job (\<lambda>j.
       case cached (rhcos_version_cache j) of
         Some v \<Rightarrow> ret (Some v)
       | None \<Rightarrow>
           seq data (\<lambda>d.
             case search_machine_os d of
               None \<Rightarrow>
                 seq (info (''Unable to find RHCOS version for '' @ version j)) (\<lambda>_.
                 ret None)
             | Some g \<Rightarrow>
                 seq (set_job (\<lambda>j. j\<lparr>rhcos_version_cache := Some g\<rparr>)) (\<lambda>_.
                 seq (info (''RHCOS version '' @ g)) (\<lambda>_.
                 ret (Some g)))))"

text \<open>\<^verbatim>\<open>OpenShiftRelease.rhcos_filename\<close>\<close>

definition rhcos_filename :: "string prog" where
  "rhcos_filename =
     seq get_job (\<lambda>j.
       case cached (rhcos_filename_cache j) of
         Some f \<Rightarrow> ret f
       | None \<Rightarrow>
           seq rhcos_version (\<lambda>v.
           let f = ''rhcos-'' @ fmt v @ ''-aws.x86_64.vmdk'' in
           seq (set_job (\<lambda>j. j\<lparr>rhcos_filename_cache := Some f\<rparr>)) (\<lambda>_.
           ret f)))"

text \<open>\<^verbatim>\<open>OpenShiftRelease.rhcos_path\<close>\<close>

definition rhcos_path :: "string prog" where
  "rhcos_path =
     seq get_job (\<lambda>j.
       case cached (rhcos_path_cache j) of
         Some p \<Rightarrow> ret p
       | None \<Rightarrow>
           seq get_world (\<lambda>w.
           seq rhcos_filename (\<lambda>f.
           let p = path_join (tmpdir w) f in
           seq (set_job (\<lambda>j. j\<lparr>rhcos_path_cache := Some p\<rparr>)) (\<lambda>_.
           ret p))))"

text \<open>
  \<^verbatim>\<open>OpenShiftRelease.rhcos_url\<close>. The list is built first (reading the version, then the
  filename); \<^verbatim>\<open>'/'.join\<close> then raises TypeError when the version is \<^verbatim>\<open>None\<close>.
\<close>

definition base_url :: string where
  "base_url = ''https://releases-art-rhcos.svc.ci.openshift.org/art/storage/releases''"

definition rhcos_url :: "string prog" where
  "rhcos_url =
     seq get_job (\<lambda>j.
       case cached (rhcos_url_cache j) of
         Some u \<Rightarrow> ret u
       | None \<Rightarrow>
           seq rhcos_version (\<lambda>v.
           seq rhcos_filename (\<lambda>f.
             case v of
               None \<Rightarrow> raise TypeError
             | Some rv \<Rightarrow>
                 let u = str_join ''/''
                           [base_url, ''rhcos-'' @ major_minor (version j), rv, ''x86_64'',
                            f @ ''.gz''] in
                 seq (set_job (\<lambda>j. j\<lparr>rhcos_url_cache := Some u\<rparr>)) (\<lambda>_.
                 ret u))))"

subsection \<open>Local files\<close>

definition path_exists :: "string \<Rightarrow> bool prog" where
  "path_exists p = seq get_world (\<lambda>w. ret (fs w p \<noteq> None))"

text \<open>\<^verbatim>\<open>open(p, 'wb')\<close> creates or empties the file; \<^verbatim>\<open>f.write(c)\<close> on it gives it content \<open>c\<close>.\<close>

definition open_write :: "string \<Rightarrow> unit prog" where
  "open_write p =
     seq (emit (OpenWrite p)) (\<lambda>_. set_world (\<lambda>w. w\<lparr>fs := (fs w)(p \<mapsto> [])\<rparr>))"

definition write_bytes :: "string \<Rightarrow> string \<Rightarrow> unit prog" where
  "write_bytes p c = set_world (\<lambda>w. w\<lparr>fs := (fs w)(p \<mapsto> c)\<rparr>)"

text \<open>\<^verbatim>\<open>os.path.getsize(p)\<close>\<close>

definition getsize :: "string \<Rightarrow> nat prog" where
  "getsize p =
     seq get_world (\<lambda>w.
       case fs w p of None \<Rightarrow> raise (FileNotFoundError p) | Some c \<Rightarrow> ret (length c))"

text \<open>\<^verbatim>\<open>open(p, 'rb')\<close>, read by the consumer.\<close>

definition read_file :: "string \<Rightarrow> string prog" where
  "read_file p =
     seq get_world (\<lambda>w.
       case fs w p of None \<Rightarrow> raise (FileNotFoundError p) | Some c \<Rightarrow> ret c)"

text \<open>
  \<^verbatim>\<open>with gzip.open(src, 'rb') as f_in: with open(dst, 'wb') as f_out:
  shutil.copyfileobj(f_in, f_out)\<close>. The destination is created before the first byte is
  read, so an exception while unpacking leaves what was written until then.
\<close>

definition gunzip_to :: "string \<Rightarrow> string \<Rightarrow> unit prog" where
  "gunzip_to src dst =
     seq (emit (Gunzip src dst)) (\<lambda>_.
     seq get_world (\<lambda>w.
       case fs w src of
         None \<Rightarrow> raise (FileNotFoundError src)
       | Some c \<Rightarrow>
           seq (set_world (\<lambda>w. w\<lparr>fs := (fs w)(dst \<mapsto> fst (gunzip w c))\<rparr>)) (\<lambda>_.
           case snd (gunzip w c) of Some m \<Rightarrow> raise (GzipError m) | None \<Rightarrow> ret ())))"

text \<open>\<^verbatim>\<open>os.remove(p)\<close>\<close>

definition remove_file :: "string \<Rightarrow> unit prog" where
  "remove_file p =
     seq (emit (RemoveFile p)) (\<lambda>_.
     seq get_world (\<lambda>w.
       case fs w p of
         None \<Rightarrow> raise (FileNotFoundError p)
       | Some c \<Rightarrow> set_world (\<lambda>w. w\<lparr>fs := (fs w)(p := None)\<rparr>)))"

subsection \<open>The object store\<close>

text \<open>
  \<^verbatim>\<open>s3.list_objects_v2(Bucket=b, Prefix=p).get('KeyCount', 0)\<close>: the number of keys of the
  bucket that start with \<open>p\<close>, at most the page size of 1000.
\<close>

definition key_count :: "string \<Rightarrow> string \<Rightarrow> world \<Rightarrow> nat" where
  "key_count b p w =
     min 1000 (length (filter (\<lambda>ob. obj_bucket ob = b \<and> startswith (obj_key ob) p) (s3 w)))"

definition list_objects_v2 :: "string \<Rightarrow> string \<Rightarrow> nat prog" where
  "list_objects_v2 b p =
     seq (provider_call (ListObjectsV2 b p)) (\<lambda>_.
     seq get_world (\<lambda>w. ret (key_count b p w)))"

text \<open>\<^verbatim>\<open>s3.upload_fileobj(f, b, k)\<close>: the object under the key is replaced.\<close>

definition upload_fileobj :: "string \<Rightarrow> string \<Rightarrow> string \<Rightarrow> string \<Rightarrow> unit prog" where
  "upload_fileobj p body b k =
     seq (provider_call (UploadFileobj p b k)) (\<lambda>_.
     set_world (\<lambda>w. w\<lparr>s3 := filter (\<lambda>ob. \<not> (obj_bucket ob = b \<and> obj_key ob = k)) (s3 w)
                              @ [\<lparr>obj_bucket = b, obj_key = k, obj_body = body\<rparr>]\<rparr>))"

subsection \<open>The compute provider\<close>

text \<open>A new identifier from the provider.\<close>

definition fresh_id :: "string prog" where
  "fresh_id =
     seq get_world (\<lambda>w.
     seq (set_world (\<lambda>w. w\<lparr>id_next := id_next w + 1\<rparr>)) (\<lambda>_.
     ret (id_supply w (id_next w))))"

text \<open>
  \<^verbatim>\<open>ec2.describe_snapshots(Filters=[tag:rhcos_version in [v]], OwnerIds=['self'])\<close>. botocore
  checks the parameters before it sends anything: \<^verbatim>\<open>None\<close> among the values is refused
  there.
\<close>

definition tagged_snapshots :: "string \<Rightarrow> world \<Rightarrow> snapshot list" where
  "tagged_snapshots v w =
     filter (\<lambda>sn. snap_owner_self sn \<and> map_of (snap_tags sn) ''rhcos_version'' = Some v)
       (snapshots w)"

definition describe_snapshots :: "string option \<Rightarrow> snapshot list prog" where
  "describe_snapshots vo =
     (case vo of
        None \<Rightarrow> raise ParamValidationError
      | Some v \<Rightarrow>
          seq (provider_call (DescribeSnapshots v)) (\<lambda>_.
          seq get_world (\<lambda>w. ret (tagged_snapshots v w))))"

text \<open>\<^verbatim>\<open>ec2.import_snapshot(Description=d, DiskContainer={... vmdk, b, k})['ImportTaskId']\<close>\<close>

definition ec2_import_snapshot :: "string \<Rightarrow> string \<Rightarrow> string \<Rightarrow> string prog" where
  "ec2_import_snapshot d b k = seq (provider_call (ImportSnapshot d b k)) (\<lambda>_. fresh_id)"

text \<open>
  \<^verbatim>\<open>ec2.describe_import_snapshot_tasks(ImportTaskIds=[tid])\<close>: the status and the snapshot
  id of the task now. A task reported completed has its snapshot in the account, without
  tags.
\<close>

definition describe_import_snapshot_tasks :: "string \<Rightarrow> (string \<times> string) prog" where
  "describe_import_snapshot_tasks tid =
     seq (provider_call (DescribeImportSnapshotTasks tid)) (\<lambda>_.
     seq get_world (\<lambda>w.
       let r = task_status w tid (clock w) in
       seq (set_world (\<lambda>w.
              if fst r = ''completed'' \<and> snd r \<notin> snap_id ` set (snapshots w)
              then w\<lparr>snapshots := snapshots w
                       @ [\<lparr>snap_id = snd r, snap_owner_self = True, snap_tags = []\<rparr>]\<rparr>
              else w)) (\<lambda>_.
       ret r)))"

text \<open>\<^verbatim>\<open>ec2.create_tags(Resources=[sid], Tags=[{rhcos_version: v}])\<close>\<close>

definition create_tags :: "string \<Rightarrow> string option \<Rightarrow> unit prog" where
  "create_tags sid vo =
     (case vo of
        None \<Rightarrow> raise ParamValidationError
      | Some v \<Rightarrow>
          seq (provider_call (CreateTags sid v)) (\<lambda>_.
          set_world (\<lambda>w. w\<lparr>snapshots :=
            map (\<lambda>sn. if snap_id sn = sid
                      then sn\<lparr>snap_tags := (''rhcos_version'', v) # snap_tags sn\<rparr> else sn)
              (snapshots w)\<rparr>)))"

text \<open>\<^verbatim>\<open>time.sleep(n)\<close>\<close>

definition sleep :: "nat \<Rightarrow> unit prog" where
  "sleep n = seq (emit (Sleep n)) (\<lambda>_. set_world (\<lambda>w. w\<lparr>clock := clock w + n\<rparr>))"

text \<open>\<^verbatim>\<open>ec2.describe_images(Filters=[name in [n]], Owners=['self'])\<close>\<close>

definition own_images :: "string \<Rightarrow> world \<Rightarrow> image list" where
  "own_images n w = filter (\<lambda>im. image_owner_self im \<and> image_name im = n) (images w)"

definition describe_images :: "string \<Rightarrow> image list prog" where
  "describe_images n =
     seq (provider_call (DescribeImages n)) (\<lambda>_.
     seq get_world (\<lambda>w. ret (own_images n w)))"

text \<open>
  \<^verbatim>\<open>ec2.register_image(Name=n, Description=d, ...)['ImageId']\<close>. The other arguments are
  constants of the script (x86\_64, hvm, the root device on the snapshot, an ephemeral
  second device, ENA and SR-IOV); a new image is private.
\<close>

definition ec2_register_image :: "string \<Rightarrow> string \<Rightarrow> string \<Rightarrow> string prog" where
  "ec2_register_image n d sid =
     seq (provider_call (RegisterImage n d sid)) (\<lambda>_.
     seq fresh_id (\<lambda>iid.
     seq (set_world (\<lambda>w. w\<lparr>images := images w
            @ [\<lparr>image_id = iid, image_name = n, image_description = d, image_snapshot = sid,
                image_owner_self = True, image_public = False\<rparr>]\<rparr>)) (\<lambda>_.
     ret iid)))"

text \<open>\<^verbatim>\<open>ec2.modify_image_attribute(ImageId=iid, LaunchPermission={Add: [{Group: all}]})\<close>\<close>

definition modify_image_attribute :: "string \<Rightarrow> unit prog" where
  "modify_image_attribute iid =
     seq (provider_call (ModifyImageAttribute iid)) (\<lambda>_.
     set_world (\<lambda>w. w\<lparr>images :=
       map (\<lambda>im. if image_id im = iid then im\<lparr>image_public := True\<rparr> else im) (images w)\<rparr>))"

subsection \<open>The stages\<close>

text \<open>
  \<^verbatim>\<open>OpenShiftRelease.download_rhcos\<close>. \<^verbatim>\<open>rhcos_size / (1024 * 1024)\<close> is Python's true
  division; dividing by a power of two is exact in floating point for every size below
  \<open>2 ^ 53\<close> and monotone above, so the comparison with 100 is the one of the exact
  quotient.
\<close>

definition download_rhcos :: "unit prog" where
  "download_rhcos =
     seq rhcos_path (\<lambda>p.
     seq (path_exists p) (\<lambda>ex.
       if ex then
         seq rhcos_path (\<lambda>p.
         info (''Skipping download because '' @ p @ '' already exists''))
       else
         seq rhcos_url (\<lambda>u.
         seq (info (''Downloading '' @ u)) (\<lambda>_.
         seq rhcos_url (\<lambda>u.
         seq (requests_get u) (\<lambda>content.
         seq rhcos_path (\<lambda>p.
         let rhcos_gzip_path = p @ ''.gz'' in
         seq (open_write rhcos_gzip_path) (\<lambda>_.
         seq (info (''Saving '' @ rhcos_gzip_path)) (\<lambda>_.
         seq (write_bytes rhcos_gzip_path content) (\<lambda>_.
         seq (getsize rhcos_gzip_path) (\<lambda>rhcos_size.
         let rhcos_size_mb = real rhcos_size / (1024 * 1024) in
         if rhcos_size_mb < 100 then raise (FileSizeTooSmall rhcos_size)
         else
           seq (info (''Unpacking '' @ rhcos_gzip_path)) (\<lambda>_.
           seq rhcos_path (\<lambda>p.
           seq (gunzip_to rhcos_gzip_path p) (\<lambda>_.
           remove_file rhcos_gzip_path))))))))))))))"

text \<open>\<^verbatim>\<open>OpenShiftRelease.upload_rhcos\<close>\<close>

definition upload_rhcos :: "unit prog" where
  "upload_rhcos =
     seq get_job (\<lambda>j.
     seq rhcos_filename (\<lambda>f.
     seq (list_objects_v2 (s3_bucket j) f) (\<lambda>n.
       if n > 0 then
         seq rhcos_filename (\<lambda>f.
         info (''Skipping upload because s3://'' @ s3_bucket j @ ''/'' @ f
               @ '' already exists''))
       else
         seq download_rhcos (\<lambda>_.
         seq rhcos_path (\<lambda>p.
         seq (read_file p) (\<lambda>body.
         seq rhcos_path (\<lambda>p'.
         seq (info (''Uploading '' @ p' @ '' to S3'')) (\<lambda>_.
         seq rhcos_filename (\<lambda>f.
         seq (upload_fileobj p body (s3_bucket j) f) (\<lambda>_.
         seq rhcos_path (\<lambda>p.
         remove_file p)))))))))))"

text \<open>
  One turn of the loop of \<^verbatim>\<open>import_snapshot\<close> up to the waiting: \<open>Some\<close> of the snapshot id
  when the task is completed (the snapshot is tagged then), \<open>None\<close> when not.
\<close>

definition poll_once :: "string \<Rightarrow> string option prog" where
  "poll_once tid =
     seq (info (''Checking status of snapshot import task '' @ tid)) (\<lambda>_.
     seq (describe_import_snapshot_tasks tid) (\<lambda>r.
       if fst r = ''completed'' then
         seq (info (''Snapshot '' @ snd r @ '' created'')) (\<lambda>_.
         seq rhcos_version (\<lambda>v.
         seq (info (''Tagging snapshot '' @ snd r @ '' with rhcos_version='' @ fmt v)) (\<lambda>_.
         seq rhcos_version (\<lambda>v.
         seq (create_tags (snd r) v) (\<lambda>_.
         ret (Some (snd r)))))))
       else
         seq (info (''Snapshot import task '' @ tid
                    @ '' not complete, waiting 10 seconds to try again'')) (\<lambda>_.
         ret None)))"

text \<open>
  \<^verbatim>\<open>while True\<close> of \<^verbatim>\<open>import_snapshot\<close>, with \<^verbatim>\<open>time_elapsed\<close> as the argument \<open>t\<close>. The loop
  goes round only while \<open>t + 10 \<le> 300\<close>, which is why it ends.
\<close>

function poll_loop :: "string \<Rightarrow> nat \<Rightarrow> string prog" where
  "poll_loop tid t s =
     (case poll_once tid s of
        (Inl e, s1) \<Rightarrow> (Inl e, s1)
      | (Inr (Some sid), s1) \<Rightarrow> (Inr sid, s1)
      | (Inr None, s1) \<Rightarrow>
          (case sleep 10 s1 of
             (Inl e, s2) \<Rightarrow> (Inl e, s2)
           | (Inr u, s2) \<Rightarrow>
               if t + 10 > 60 * 5 then (Inl (ImportTimedOut tid), s2)
               else poll_loop tid (t + 10) s2))"
  by pat_completeness auto
termination
  by (relation "measure (\<lambda>(tid, t, s). 301 - t)") auto

declare poll_loop.simps [simp del]

text \<open>\<^verbatim>\<open>OpenShiftRelease.import_snapshot\<close>\<close>

definition import_snapshot :: "string prog" where
  "import_snapshot =
     seq get_job (\<lambda>j.
     seq upload_rhcos (\<lambda>_.
     seq rhcos_version (\<lambda>v.
     let description = ''rhcos-'' @ fmt v in
     seq rhcos_version (\<lambda>v.
     seq (describe_snapshots v) (\<lambda>existing_snapshots.
       case existing_snapshots of
         sn # rest \<Rightarrow>
           seq (info (''Skipping snapshot creation because '' @ snap_id sn
                      @ '' already exists'')) (\<lambda>_.
           ret (snap_id sn))
       | [] \<Rightarrow>
           seq rhcos_filename (\<lambda>f.
           seq (info (''Importing snapshot from s3://'' @ s3_bucket j @ ''/'' @ f)) (\<lambda>_.
           seq rhcos_filename (\<lambda>f.
           seq (ec2_import_snapshot description (s3_bucket j) f) (\<lambda>import_task_id.
           poll_loop import_task_id 0)))))))))"

text \<open>\<^verbatim>\<open>OpenShiftRelease.register_image\<close>\<close>

definition register_image :: "string prog" where
  "register_image =
     seq import_snapshot (\<lambda>snapshot_id.
     seq rhcos_version (\<lambda>v.
     seq (describe_images (''rhcos-'' @ fmt v)) (\<lambda>existing_images.
       case existing_images of
         im # rest \<Rightarrow>
           seq (info (''Skipping image creation because '' @ image_id im
                      @ '' already exists'')) (\<lambda>_.
           ret (image_id im))
       | [] \<Rightarrow>
           seq (info (''Registering image from snapshot '' @ snapshot_id)) (\<lambda>_.
           seq rhcos_version (\<lambda>v.
           seq rhcos_version (\<lambda>v'.
           seq (ec2_register_image (''rhcos-'' @ fmt v) (''OpenShift 4 '' @ fmt v')
                  snapshot_id) (\<lambda>iid.
           seq (info (''Created image '' @ iid)) (\<lambda>_.
           seq (info (''Making image '' @ iid @ '' public'')) (\<lambda>_.
           seq (modify_image_attribute iid) (\<lambda>_.
           ret iid))))))))))"

subsection \<open>The script body\<close>

text \<open>
  \<^verbatim>\<open>re.search(r'^\d+\.\d+\.\d+$', version)\<close> without flags: the whole text is three runs of
  digits between dots, and \<^verbatim>\<open>$\<close> also accepts one newline after them.
\<close>

definition digits :: "string \<Rightarrow> bool" where
  "digits s \<longleftrightarrow> s \<noteq> [] \<and> list_all is_digit s"

definition dotted3 :: "string \<Rightarrow> bool" where
  "dotted3 s =
     (case split_on CHR ''.'' s of
        [a, b, c] \<Rightarrow> digits a \<and> digits b \<and> digits c
      | _ \<Rightarrow> False)"

definition is_release_version :: "string \<Rightarrow> bool" where
  "is_release_version v \<longleftrightarrow>
     dotted3 v \<or> (v \<noteq> [] \<and> last v = CHR 0x0A \<and> dotted3 (butlast v))"

text \<open>The inner loop over the nodes of one answer; \<open>acc\<close> is \<^verbatim>\<open>openshift_versions\<close>.\<close>

definition collect_nodes :: "string list \<Rightarrow> string list \<Rightarrow> string list \<Rightarrow> string list" where
  "collect_nodes versions_to_upload nodes acc =
     fold (\<lambda>v acc.
             if major_minor v \<in> set versions_to_upload \<and> is_release_version v
             then (if v \<notin> set acc then acc @ [v] else acc)
             else acc)
       nodes acc"

text \<open>
  The request for one channel with \<^verbatim>\<open>r.json()\<close> and the reading of \<^verbatim>\<open>data['nodes']\<close> and of
  each \<^verbatim>\<open>node['version']\<close>: the versions in the order of the answer, or the exception.
\<close>

definition get_graph :: "string \<Rightarrow> world \<Rightarrow> (error + string list) \<times> world" where
  "get_graph i w =
     (case graph_nodes w (''stable-'' @ i) of
        Inl m \<Rightarrow> Inl (GraphError m)
      | Inr nodes \<Rightarrow> Inr nodes,
      w\<lparr>trace := trace w @ [GetGraph (''stable-'' @ i)]\<rparr>)"

text \<open>The outer loop \<^verbatim>\<open>for i in versions_to_upload\<close>, over what is left of the list.\<close>

fun discover :: "string list \<Rightarrow> string list \<Rightarrow> string list \<Rightarrow> world
                   \<Rightarrow> (error + string list) \<times> world" where
  "discover versions_to_upload [] acc w = (Inr acc, w)"
| "discover versions_to_upload (i # rest) acc w =
     (case get_graph i w of
        (Inl e, w') \<Rightarrow> (Inl e, w')
      | (Inr nodes, w') \<Rightarrow>
          discover versions_to_upload rest (collect_nodes versions_to_upload nodes acc) w')"

text \<open>
  \<^verbatim>\<open>int(s)\<close> on what can reach it: blanks at both ends are dropped, and the rest is a run
  of digits. (A sign or an underscore, which \<^verbatim>\<open>int\<close> also reads, is no character of a text
  that passed the test above; such a text is \<open>None\<close> here.) \<open>None\<close> is ValueError.

  The interpreter converts no decimal text of more than \<^verbatim>\<open>sys.get_int_max_str_digits()\<close>
  digits: \<^verbatim>\<open>int\<close> raises ValueError for it. The script leaves the limit at its default of
  4300 (CPython 3.11 and later, and the releases of 3.7 to 3.10 that took the limit). Every
  digit counts, leading zeros too; the blanks do not.
\<close>

definition int_max_str_digits :: nat where
  "int_max_str_digits = 4300"

definition is_space :: "char \<Rightarrow> bool" where
  "is_space c \<longleftrightarrow> c \<in> set [CHR '' '', CHR 0x09, CHR 0x0A, CHR 0x0B, CHR 0x0C, CHR 0x0D]"

definition strip :: "string \<Rightarrow> string" where
  "strip s = rev (dropWhile is_space (rev (dropWhile is_space s)))"

definition digit_val :: "char \<Rightarrow> int" where
  "digit_val c = int (of_char c) - 48"

definition py_int :: "string \<Rightarrow> int option" where
  "py_int s =
     (let b = strip s in
      if digits b \<and> length b \<le> int_max_str_digits
      then Some (foldl (\<lambda>n c. 10 * n + digit_val c) 0 b)
      else None)"

text \<open>\<^verbatim>\<open>list(map(int, s.split('.')))\<close>: the sort key, or ValueError.\<close>

fun all_some :: "'a option list \<Rightarrow> 'a list option" where
  "all_some [] = Some []"
| "all_some (None # xs) = None"
| "all_some (Some x # xs) = (case all_some xs of None \<Rightarrow> None | Some ys \<Rightarrow> Some (x # ys))"

definition version_key :: "string \<Rightarrow> int list option" where
  "version_key s = all_some (map py_int (split_on CHR ''.'' s))"

text \<open>Python's \<^verbatim>\<open><\<close> on lists of integers.\<close>

fun list_less :: "int list \<Rightarrow> int list \<Rightarrow> bool" where
  "list_less [] [] = False"
| "list_less [] (y # ys) = True"
| "list_less (x # xs) [] = False"
| "list_less (x # xs) (y # ys) = (x < y \<or> (x = y \<and> list_less xs ys))"

text \<open>
  \<^verbatim>\<open>sort(reverse=True, key=...)\<close>: descending by key, and stable (elements of equal key keep
  their order). The keys are computed first, so a text that \<^verbatim>\<open>int\<close> refuses ends the sort
  with ValueError before anything moves.
\<close>

fun insert_desc :: "int list \<times> string \<Rightarrow> (int list \<times> string) list
                      \<Rightarrow> (int list \<times> string) list" where
  "insert_desc x [] = [x]"
| "insert_desc x (y # ys) =
     (if list_less (fst x) (fst y) then y # insert_desc x ys else x # y # ys)"

definition sort_versions :: "string list \<Rightarrow> error + string list" where
  "sort_versions vs =
     (case all_some (map version_key vs) of
        None \<Rightarrow> Inl ValueError
      | Some ks \<Rightarrow> Inr (map snd (foldr insert_desc (zip ks vs) [])))"

definition bucket_name :: string where
  "bucket_name = ''io-rhdt-govcloud-vmimport''"

text \<open>
  The body of \<^verbatim>\<open>for v in openshift_versions\<close>: a new job, \<^verbatim>\<open>register_image\<close>, and
  \<^verbatim>\<open>except Exception as e: logger.error(e)\<close>. Every \<open>error\<close> of the model is an Exception.
\<close>

definition process_version :: "string \<Rightarrow> world \<Rightarrow> world" where
  "process_version v w =
     (let w1 = w\<lparr>trace := trace w @ [LogInfo (''Processing OpenShift '' @ v)]\<rparr> in
      case register_image (OpenShiftRelease v bucket_name, w1) of
        (Inl e, s) \<Rightarrow> (snd s)\<lparr>trace := trace (snd s) @ [LogError e]\<rparr>
      | (Inr iid, s) \<Rightarrow> snd s)"

fun process_all :: "string list \<Rightarrow> world \<Rightarrow> world" where
  "process_all [] w = w"
| "process_all (v # vs) w = process_all vs (process_version v w)"

text \<open>
  The script from the parsed arguments on: the exit status and the world it leaves. An
  exception outside the \<^verbatim>\<open>try\<close> (of the discovery, or of the sort) ends the process with
  status 1 before any version is processed; argparse ends it with status 2 when no version
  is given.
\<close>

definition main :: "string list \<Rightarrow> world \<Rightarrow> int \<times> world" where
  "main versions_to_upload w =
     (if versions_to_upload = [] then (2, w)
      else
        (case discover versions_to_upload versions_to_upload [] w of
           (Inl e, w') \<Rightarrow> (1, w')
         | (Inr openshift_versions, w') \<Rightarrow>
             (case sort_versions openshift_versions of
                Inl e \<Rightarrow> (1, w')
              | Inr sorted_versions \<Rightarrow> (0, process_all sorted_versions w'))))"

section \<open>Auxiliary definitions\<close>

text \<open>
  Nothing below is part of the script. These definitions name what the properties talk
  about: kinds of events, what a stage may change, and example worlds.
\<close>

subsection \<open>Events\<close>

definition log_event :: "event \<Rightarrow> world \<Rightarrow> world" where
  "log_event ev w = w\<lparr>trace := trace w @ [ev]\<rparr>"

text \<open>What one waiting turn of the poll loop leaves in the trace.\<close>

definition poll_round :: "string \<Rightarrow> event list" where
  "poll_round tid =
     [LogInfo (''Checking status of snapshot import task '' @ tid),
      DescribeImportSnapshotTasks tid,
      LogInfo (''Snapshot import task '' @ tid
               @ '' not complete, waiting 10 seconds to try again''),
      Sleep 10]"

text \<open>The status calls and the sleeps.\<close>

definition is_wait :: "event \<Rightarrow> bool" where
  "is_wait ev =
     (case ev of DescribeImportSnapshotTasks t \<Rightarrow> True | Sleep n \<Rightarrow> True | _ \<Rightarrow> False)"

definition is_gunzip :: "event \<Rightarrow> bool" where
  "is_gunzip ev = (case ev of Gunzip a b \<Rightarrow> True | _ \<Rightarrow> False)"

definition is_import_snapshot :: "event \<Rightarrow> bool" where
  "is_import_snapshot ev = (case ev of ImportSnapshot d b k \<Rightarrow> True | _ \<Rightarrow> False)"

definition is_modify :: "event \<Rightarrow> bool" where
  "is_modify ev = (case ev of ModifyImageAttribute i \<Rightarrow> True | _ \<Rightarrow> False)"

text \<open>The two calls that change the images of the account.\<close>

definition image_write :: "event \<Rightarrow> bool" where
  "image_write ev =
     (case ev of RegisterImage n d s \<Rightarrow> True | ModifyImageAttribute i \<Rightarrow> True | _ \<Rightarrow> False)"

text \<open>
  What \<^verbatim>\<open>download_rhcos\<close> and the upload branch of \<^verbatim>\<open>upload_rhcos\<close> leave in the trace for a job
  of release \<open>v\<close>: their log lines, every request but the one for the release text, every
  file operation and the upload.
\<close>

definition transfer_event :: "string \<Rightarrow> event \<Rightarrow> bool" where
  "transfer_event v ev =
     (case ev of
        LogInfo m \<Rightarrow> startswith m ''Skipping download because '' \<or> startswith m ''Downloading ''
                     \<or> startswith m ''Saving '' \<or> startswith m ''Unpacking ''
                     \<or> startswith m ''Uploading ''
      | HttpGet u \<Rightarrow> u \<noteq> release_txt_url v
      | OpenWrite p \<Rightarrow> True
      | Gunzip a b \<Rightarrow> True
      | RemoveFile p \<Rightarrow> True
      | UploadFileobj p b k \<Rightarrow> True
      | _ \<Rightarrow> False)"

text \<open>What \<^verbatim>\<open>upload_rhcos\<close> leaves in the trace when the object is there.\<close>

definition skip_upload_events :: "string \<Rightarrow> string \<Rightarrow> event list" where
  "skip_upload_events b f =
     [ListObjectsV2 b f,
      LogInfo (''Skipping upload because s3://'' @ b @ ''/'' @ f @ '' already exists'')]"

text \<open>The line the loop over the versions logs before each job.\<close>

definition processing :: "string \<Rightarrow> event" where
  "processing v = LogInfo (''Processing OpenShift '' @ v)"

definition is_processing :: "event \<Rightarrow> bool" where
  "is_processing ev =
     (case ev of LogInfo m \<Rightarrow> startswith m ''Processing OpenShift '' | _ \<Rightarrow> False)"

text \<open>The image \<^verbatim>\<open>register_image\<close> registers for RHCOS version \<open>v\<close> from snapshot \<open>sid\<close>.\<close>

definition new_image :: "string \<Rightarrow> string \<Rightarrow> string \<Rightarrow> image" where
  "new_image iid v sid =
     \<lparr>image_id = iid, image_name = ''rhcos-'' @ v, image_description = ''OpenShift 4 '' @ v,
      image_snapshot = sid, image_owner_self = True, image_public = False\<rparr>"

subsection \<open>Frames: what a step may change\<close>

text \<open>
  \<open>resolve j h\<close> is the value \<^verbatim>\<open>rhcos_version\<close> returns for job \<open>j\<close> when the server
  answers as \<open>h\<close> does (lemma \<open>rhcos_version_value\<close> below): the version the job
  resolves to. It depends on the version, on two caches and on \<open>h\<close> only.
\<close>

definition resolve :: "job \<Rightarrow> (string \<Rightarrow> string + string) \<Rightarrow> error + string option" where
  "resolve j h =
     (case cached (rhcos_version_cache j) of
        Some v \<Rightarrow> Inr (Some v)
      | None \<Rightarrow>
          (case cached (data_cache j) of
             Some d \<Rightarrow> Inr (search_machine_os d)
           | None \<Rightarrow>
               (case h (release_txt_url (version j)) of
                  Inl m \<Rightarrow> Inl (RequestError m)
                | Inr d \<Rightarrow> Inr (search_machine_os d))))"

text \<open>
  What every step keeps of the job: the release version, the bucket, and what the job
  resolves to.
\<close>

definition job_frame :: "(string \<Rightarrow> string + string) \<Rightarrow> job \<Rightarrow> job \<Rightarrow> bool" where
  "job_frame h j j' \<longleftrightarrow>
     version j' = version j \<and> s3_bucket j' = s3_bucket j \<and> resolve j' h = resolve j h"

text \<open>The trace of \<open>w'\<close> is the trace of \<open>w\<close> and then events of kind \<open>P\<close>.\<close>

definition extends :: "(event \<Rightarrow> bool) \<Rightarrow> world \<Rightarrow> world \<Rightarrow> bool" where
  "extends P w w' \<longleftrightarrow> (\<exists>evs. trace w' = trace w @ evs \<and> list_all P evs)"

text \<open>
  What deriving a field of a job of release \<open>v\<close> may leave in the trace: the two log
  lines of the resolver, and the request for the release text of \<open>v\<close>.
\<close>

definition meta_event :: "string \<Rightarrow> event \<Rightarrow> bool" where
  "meta_event v ev =
     (case ev of
        LogInfo m \<Rightarrow> startswith m ''Unable to find RHCOS version for ''
                     \<or> startswith m ''RHCOS version ''
      | HttpGet u \<Rightarrow> u = release_txt_url v
      | _ \<Rightarrow> False)"

definition untraced :: "world \<Rightarrow> world" where
  "untraced w = w\<lparr>trace := []\<rparr>"

text \<open>The frame of the derived fields: of the world, only the trace changes.\<close>

definition step_meta :: "st \<Rightarrow> st \<Rightarrow> bool" where
  "step_meta s s' \<longleftrightarrow>
     job_frame (http_get (snd s)) (fst s) (fst s')
     \<and> untraced (snd s') = untraced (snd s)
     \<and> extends (meta_event (version (fst s))) (snd s) (snd s')"

text \<open>
  The events of the three stages, each class holding the one before: staging (download
  and upload), import, registration. The loop's own line is in none of them.
\<close>

definition stage_event :: "event \<Rightarrow> bool" where
  "stage_event ev =
     (case ev of
        LogInfo m \<Rightarrow> \<not> startswith m ''Processing OpenShift ''
      | HttpGet u \<Rightarrow> True | OpenWrite p \<Rightarrow> True | Gunzip a b \<Rightarrow> True
      | RemoveFile p \<Rightarrow> True | ListObjectsV2 b k \<Rightarrow> True | UploadFileobj p b k \<Rightarrow> True
      | _ \<Rightarrow> False)"

definition import_event :: "event \<Rightarrow> bool" where
  "import_event ev =
     (case ev of
        DescribeSnapshots v \<Rightarrow> True | ImportSnapshot d b k \<Rightarrow> True
      | DescribeImportSnapshotTasks t \<Rightarrow> True | CreateTags s v \<Rightarrow> True | Sleep n \<Rightarrow> True
      | _ \<Rightarrow> stage_event ev)"

definition register_event :: "event \<Rightarrow> bool" where
  "register_event ev =
     (case ev of
        DescribeImages n \<Rightarrow> True | RegisterImage n d s \<Rightarrow> True | ModifyImageAttribute i \<Rightarrow> True
      | _ \<Rightarrow> import_event ev)"

text \<open>
  The world without the fields a stage may change: two worlds agree on what the stage
  leaves alone when these projections are equal.
\<close>

definition stage_rest :: "world \<Rightarrow> world" where
  "stage_rest w = w\<lparr>trace := [], fs := (\<lambda>p. None), s3 := []\<rparr>"

definition import_rest :: "world \<Rightarrow> world" where
  "import_rest w =
     w\<lparr>trace := [], fs := (\<lambda>p. None), s3 := [], snapshots := [], clock := 0, id_next := 0\<rparr>"

definition register_rest :: "world \<Rightarrow> world" where
  "register_rest w =
     w\<lparr>trace := [], fs := (\<lambda>p. None), s3 := [], snapshots := [], clock := 0, id_next := 0,
       images := []\<rparr>"

text \<open>
  The frame of a stage: the job keeps what \<open>job_frame\<close> says, the world keeps its
  projection \<open>rest\<close>, and the trace grows by events of kind \<open>P\<close>.
\<close>

definition step :: "(world \<Rightarrow> world) \<Rightarrow> (event \<Rightarrow> bool) \<Rightarrow> st \<Rightarrow> st \<Rightarrow> bool" where
  "step rest P s s' \<longleftrightarrow>
     job_frame (http_get (snd s)) (fst s) (fst s')
     \<and> rest (snd s') = rest (snd s)
     \<and> extends P (snd s) (snd s')"

text \<open>
  A projection and a kind of events fit together as a frame when the projection keeps
  the server's answers, forgets the trace, and the kind holds the events of the derived
  fields.
\<close>

definition frame_ok :: "(world \<Rightarrow> world) \<Rightarrow> (event \<Rightarrow> bool) \<Rightarrow> bool" where
  "frame_ok rest P \<longleftrightarrow>
     (\<forall>w w'. rest w' = rest w \<longrightarrow> http_get w' = http_get w)
     \<and> (\<forall>w w'. untraced w' = untraced w \<longrightarrow> rest w' = rest w)
     \<and> (\<forall>v ev. meta_event v ev \<longrightarrow> P ev)"

text \<open>A program keeps a relation when every run takes a state to a related one.\<close>

definition keeps :: "(st \<Rightarrow> st \<Rightarrow> bool) \<Rightarrow> 'a prog \<Rightarrow> bool" where
  "keeps R m \<longleftrightarrow> (\<forall>s. R s (snd (m s)))"

definition preorder_on_st :: "(st \<Rightarrow> st \<Rightarrow> bool) \<Rightarrow> bool" where
  "preorder_on_st R \<longleftrightarrow> (\<forall>s. R s s) \<and> (\<forall>a b c. R a b \<longrightarrow> R b c \<longrightarrow> R a c)"

definition same_on :: "(st \<Rightarrow> 'a) \<Rightarrow> st \<Rightarrow> st \<Rightarrow> bool" where
  "same_on f s s' \<longleftrightarrow> f s' = f s"

subsection \<open>Example worlds\<close>

text \<open>
  A world in which nothing exists yet and nothing answers: no server, no files, an empty
  bucket and account, a provider that refuses no call, import tasks that stay active.
  The examples below change the fields they need.
\<close>

definition quiet_world :: world where
  "quiet_world =
     \<lparr>http_get = (\<lambda>u. Inl ''connection refused''),
      graph_nodes = (\<lambda>c. Inl ''connection refused''),
      tmpdir = ''/tmp'',
      gunzip = (\<lambda>b. (b, None)),
      fault = (\<lambda>ev. None),
      task_status = (\<lambda>tid c. (''active'', [])),
      id_supply = (\<lambda>n. ''id-'' @ replicate n CHR ''i''),
      id_next = 0,
      clock = 0,
      fs = (\<lambda>p. None),
      s3 = [],
      snapshots = [],
      images = [],
      trace = []\<rparr>"

definition graph_world :: world where
  "graph_world =
     quiet_world\<lparr>graph_nodes :=
       (\<lambda>c. if c = ''stable-4.7''
            then Inr [''4.7.3'', ''4.7.10'', ''4.7.2-rc.1'', ''4.8.0'']
            else Inl ''connection refused'')\<rparr>"

text \<open>The release text is served, and is empty.\<close>

definition empty_text_world :: world where
  "empty_text_world = quiet_world\<lparr>http_get := (\<lambda>u. Inr [])\<rparr>"

text \<open>The release text is served, and has no line for the RHCOS version.\<close>

definition no_version_world :: world where
  "no_version_world =
     quiet_world\<lparr>http_get := (\<lambda>u. Inr ''Name: 4.7.3 machine-os-content sha256:0000'')\<rparr>"

text \<open>
  The release text names the RHCOS version, and every other URL answers with four bytes.
\<close>

definition small_download_world :: world where
  "small_download_world =
     quiet_world\<lparr>http_get :=
       (\<lambda>u. if u = release_txt_url ''4.7.3''
            then Inr ''Name: 4.7.3 machine-os 47.83.202103251640-0 Red Hat''
            else Inr ''tiny'')\<rparr>"

text \<open>The release text names the RHCOS version, and its disk image is in the bucket.\<close>

definition staged_world :: world where
  "staged_world =
     small_download_world\<lparr>s3 :=
       [\<lparr>obj_bucket = bucket_name, obj_key = ''rhcos-47.83.202103251640-0-aws.x86_64.vmdk'',
         obj_body = ''disk''\<rparr>]\<rparr>"

text \<open>Also the snapshot of an earlier import is there, tagged.\<close>

definition snapshot_world :: world where
  "snapshot_world =
     staged_world\<lparr>snapshots :=
       [\<lparr>snap_id = ''snap-1'', snap_owner_self = True,
         snap_tags = [(''rhcos_version'', ''47.83.202103251640-0'')]\<rparr>]\<rparr>"

text \<open>Also the image of an earlier run is there.\<close>

definition image_world :: world where
  "image_world =
     snapshot_world\<lparr>images :=
       [\<lparr>image_id = ''ami-1'', image_name = ''rhcos-47.83.202103251640-0'',
         image_description = ''OpenShift 4 47.83.202103251640-0'', image_snapshot = ''snap-1'',
         image_owner_self = True, image_public = True\<rparr>]\<rparr>"

text \<open>The snapshot is there, no image yet, and no image attribute may be modified.\<close>

definition denied_world :: world where
  "denied_world =
     snapshot_world\<lparr>fault := (\<lambda>ev. if is_modify ev then Some ''UnauthorizedOperation'' else None)\<rparr>"

text \<open>
  A second run over three releases: 4.7.10 and 4.7.2 were published by an earlier run
  (object, snapshot and image are there); 4.7.3 was not, and its download is four bytes.
\<close>

definition batch_world :: world where
  "batch_world =
     quiet_world
       \<lparr>http_get :=
          (\<lambda>u. if u = release_txt_url ''4.7.10'' then Inr ''machine-os 47.83.10 ''
               else if u = release_txt_url ''4.7.3'' then Inr ''machine-os 47.83.3 ''
               else if u = release_txt_url ''4.7.2'' then Inr ''machine-os 47.83.2 ''
               else Inr ''tiny''),
        graph_nodes :=
          (\<lambda>c. if c = ''stable-4.7'' then Inr [''4.7.2'', ''4.7.10'', ''4.7.3'']
               else Inl ''connection refused''),
        s3 :=
          [\<lparr>obj_bucket = bucket_name, obj_key = ''rhcos-47.83.10-aws.x86_64.vmdk'',
            obj_body = ''disk''\<rparr>,
           \<lparr>obj_bucket = bucket_name, obj_key = ''rhcos-47.83.2-aws.x86_64.vmdk'',
            obj_body = ''disk''\<rparr>],
        snapshots :=
          [\<lparr>snap_id = ''snap-10'', snap_owner_self = True,
            snap_tags = [(''rhcos_version'', ''47.83.10'')]\<rparr>,
           \<lparr>snap_id = ''snap-2'', snap_owner_self = True,
            snap_tags = [(''rhcos_version'', ''47.83.2'')]\<rparr>],
        images :=
          [\<lparr>image_id = ''ami-10'', image_name = ''rhcos-47.83.10'',
            image_description = ''OpenShift 4 47.83.10'', image_snapshot = ''snap-10'',
            image_owner_self = True, image_public = True\<rparr>,
           \<lparr>image_id = ''ami-2'', image_name = ''rhcos-47.83.2'',
            image_description = ''OpenShift 4 47.83.2'', image_snapshot = ''snap-2'',
            image_owner_self = True, image_public = True\<rparr>]\<rparr>"

section \<open>Properties\<close>

lemmas prim_defs =
  seq_def ret_def raise_def get_job_def get_world_def set_job_def set_world_def
  emit_def info_def provider_call_def

subsection \<open>Sequencing, frames and the derived fields\<close>

lemma search_machine_os_nonempty: "search_machine_os d = Some g \<Longrightarrow> g \<noteq> []"
  by (induction d) (auto simp: Let_def split: if_splits)

lemma keepsD: "keeps R m \<Longrightarrow> m s = (r, s') \<Longrightarrow> R s s'"
  unfolding keeps_def by (metis snd_conv)

lemma keeps_ret: "preorder_on_st R \<Longrightarrow> keeps R (ret x)"
  by (simp add: keeps_def preorder_on_st_def ret_def)

lemma keeps_raise: "preorder_on_st R \<Longrightarrow> keeps R (raise e)"
  by (simp add: keeps_def preorder_on_st_def raise_def)

lemma keeps_seq:
  assumes "preorder_on_st R" "keeps R m" "\<And>x. keeps R (f x)"
  shows "keeps R (seq m f)"
  unfolding keeps_def
proof
  fix s
  obtain r s1 where ms: "m s = (r, s1)" by (cases "m s")
  have a: "R s s1" using assms(2) ms by (rule keepsD)
  show "R s (snd (seq m f s))"
  proof (cases r)
    case (Inl e)
    with ms a show ?thesis by (simp add: seq_def)
  next
    case (Inr x)
    have "R s1 (snd (f x s1))" using assms(3) [of x] unfolding keeps_def by blast
    with a assms(1) have "R s (snd (f x s1))" unfolding preorder_on_st_def by blast
    with ms Inr show ?thesis by (simp add: seq_def)
  qed
qed

lemma extends_refl: "extends P w w"
  by (simp add: extends_def)

lemma extends_trans: "extends P a b \<Longrightarrow> extends P b c \<Longrightarrow> extends P a c"
  unfolding extends_def
proof (elim exE conjE)
  fix e1 e2
  assume "trace b = trace a @ e1" "list_all P e1" "trace c = trace b @ e2" "list_all P e2"
  then have "trace c = trace a @ (e1 @ e2) \<and> list_all P (e1 @ e2)" by simp
  then show "\<exists>evs. trace c = trace a @ evs \<and> list_all P evs" by blast
qed

lemma extends_mono: "extends P a b \<Longrightarrow> (\<And>ev. P ev \<Longrightarrow> Q ev) \<Longrightarrow> extends Q a b"
  unfolding extends_def by (auto simp: list_all_iff)

lemma extends_emit: "P ev \<Longrightarrow> extends P w (w\<lparr>trace := trace w @ [ev]\<rparr>)"
  by (simp add: extends_def)

lemma untraced_fields:
  assumes "untraced w' = untraced w"
  shows "http_get w' = http_get w" "graph_nodes w' = graph_nodes w" "tmpdir w' = tmpdir w"
    "gunzip w' = gunzip w" "fault w' = fault w" "task_status w' = task_status w"
    "id_supply w' = id_supply w" "id_next w' = id_next w" "clock w' = clock w"
    "fs w' = fs w" "s3 w' = s3 w" "snapshots w' = snapshots w" "images w' = images w"
proof -
  have "http_get (untraced w') = http_get (untraced w)" using assms by simp
  then show "http_get w' = http_get w" by (simp add: untraced_def)
  have "graph_nodes (untraced w') = graph_nodes (untraced w)" using assms by simp
  then show "graph_nodes w' = graph_nodes w" by (simp add: untraced_def)
  have "tmpdir (untraced w') = tmpdir (untraced w)" using assms by simp
  then show "tmpdir w' = tmpdir w" by (simp add: untraced_def)
  have "gunzip (untraced w') = gunzip (untraced w)" using assms by simp
  then show "gunzip w' = gunzip w" by (simp add: untraced_def)
  have "fault (untraced w') = fault (untraced w)" using assms by simp
  then show "fault w' = fault w" by (simp add: untraced_def)
  have "task_status (untraced w') = task_status (untraced w)" using assms by simp
  then show "task_status w' = task_status w" by (simp add: untraced_def)
  have "id_supply (untraced w') = id_supply (untraced w)" using assms by simp
  then show "id_supply w' = id_supply w" by (simp add: untraced_def)
  have "id_next (untraced w') = id_next (untraced w)" using assms by simp
  then show "id_next w' = id_next w" by (simp add: untraced_def)
  have "clock (untraced w') = clock (untraced w)" using assms by simp
  then show "clock w' = clock w" by (simp add: untraced_def)
  have "fs (untraced w') = fs (untraced w)" using assms by simp
  then show "fs w' = fs w" by (simp add: untraced_def)
  have "s3 (untraced w') = s3 (untraced w)" using assms by simp
  then show "s3 w' = s3 w" by (simp add: untraced_def)
  have "snapshots (untraced w') = snapshots (untraced w)" using assms by simp
  then show "snapshots w' = snapshots w" by (simp add: untraced_def)
  have "images (untraced w') = images (untraced w)" using assms by simp
  then show "images w' = images w" by (simp add: untraced_def)
qed

lemma preorder_step_meta: "preorder_on_st step_meta"
  unfolding preorder_on_st_def
proof (intro conjI allI impI)
  fix s show "step_meta s s"
    by (simp add: step_meta_def job_frame_def extends_refl)
next
  fix a b c assume ab: "step_meta a b" and bc: "step_meta b c"
  from ab have "untraced (snd b) = untraced (snd a)"
    by (simp add: step_meta_def)
  then have h: "http_get (snd b) = http_get (snd a)"
    by (rule untraced_fields)
  from ab have v: "version (fst b) = version (fst a)"
    by (simp add: step_meta_def job_frame_def)
  from ab bc v have e: "extends (meta_event (version (fst a))) (snd a) (snd c)"
    unfolding step_meta_def by (metis extends_trans)
  from ab bc h v have j: "job_frame (http_get (snd a)) (fst a) (fst c)"
    by (simp add: step_meta_def job_frame_def)
  from ab bc have u: "untraced (snd c) = untraced (snd a)"
    by (simp add: step_meta_def)
  from e j u show "step_meta a c"
    by (simp add: step_meta_def)
qed

lemma data_eq:
  "data (j, w) =
     (case cached (data_cache j) of
        Some d \<Rightarrow> (Inr d, (j, w))
      | None \<Rightarrow>
          (case http_get w (release_txt_url (version j)) of
             Inl m \<Rightarrow> (Inl (RequestError m),
                       (j, log_event (HttpGet (release_txt_url (version j))) w))
           | Inr d \<Rightarrow> (Inr d, (j\<lparr>data_cache := Some d\<rparr>,
                               log_event (HttpGet (release_txt_url (version j))) w))))"
  by (simp add: data_def requests_get_def prim_defs log_event_def split: option.split sum.split)

lemma step_meta_log:
  "meta_event (version j) ev \<Longrightarrow> job_frame (http_get w) j j' \<Longrightarrow> step_meta (j, w) (j', log_event ev w)"
  by (simp add: step_meta_def log_event_def untraced_def extends_def)

lemma keeps_meta_data: "keeps step_meta data"
  unfolding keeps_def
proof (intro allI)
  fix s :: st
  obtain j w where s: "s = (j, w)" by (cases s)
  have m: "meta_event (version j) (HttpGet (release_txt_url (version j)))"
    by (simp add: meta_event_def)
  show "step_meta s (snd (data s))"
  proof (cases "cached (data_cache j)")
    case (Some d)
    then show ?thesis using preorder_step_meta
      by (simp add: s data_eq preorder_on_st_def)
  next
    case None
    show ?thesis
    proof (cases "http_get w (release_txt_url (version j))")
      case (Inl e)
      with None show ?thesis
        by (simp add: s data_eq step_meta_log [OF m] job_frame_def)
    next
      case (Inr d)
      have "job_frame (http_get w) j (j\<lparr>data_cache := Some d\<rparr>)"
        using None Inr by (simp add: job_frame_def resolve_def split: option.split)
      with None Inr show ?thesis
        by (simp add: s data_eq step_meta_log [OF m])
    qed
  qed
qed

lemma keeps_case_option:
  "keeps R a \<Longrightarrow> (\<And>x. keeps R (b x)) \<Longrightarrow> keeps R (case v of None \<Rightarrow> a | Some x \<Rightarrow> b x)"
  by (cases v) simp_all

lemma keeps_case_list:
  "keeps R a \<Longrightarrow> (\<And>x xs. keeps R (b x xs)) \<Longrightarrow> keeps R (case v of [] \<Rightarrow> a | x # xs \<Rightarrow> b x xs)"
  by (cases v) simp_all

lemma keeps_if: "keeps R a \<Longrightarrow> keeps R b \<Longrightarrow> keeps R (if c then a else b)"
  by simp

lemma keeps_Let: "(\<And>x. keeps R (f x)) \<Longrightarrow> keeps R (Let v f)"
  by (simp add: Let_def)

lemma keeps_set_job: "(\<And>j w. R (j, w) (f j, w)) \<Longrightarrow> keeps R (set_job f)"
  by (simp add: keeps_def set_job_def)

lemma keeps_set_world: "(\<And>j w. R (j, w) (j, f w)) \<Longrightarrow> keeps R (set_world f)"
  by (simp add: keeps_def set_world_def)

lemma keeps_emit: "(\<And>j w. R (j, w) (j, log_event ev w)) \<Longrightarrow> keeps R (emit ev)"
  by (simp add: keeps_def emit_def set_world_def log_event_def)

lemma keeps_info: "(\<And>j w. R (j, w) (j, log_event (LogInfo m) w)) \<Longrightarrow> keeps R (info m)"
  by (simp add: info_def keeps_emit)

lemma job_frame_refl: "job_frame h j j"
  by (simp add: job_frame_def)

lemma step_meta_unable:
  "step_meta (j, w) (j, log_event (LogInfo (''Unable to find RHCOS version for '' @ x)) w)"
  by (rule step_meta_log) (simp_all add: meta_event_def job_frame_refl)

lemma step_meta_job: "job_frame (http_get w) j j' \<Longrightarrow> step_meta (j, w) (j', w)"
  by (simp add: step_meta_def extends_refl)

lemma step_meta_trans: "step_meta a b \<Longrightarrow> step_meta b c \<Longrightarrow> step_meta a c"
  using preorder_step_meta unfolding preorder_on_st_def by blast

lemma step_meta_refl: "step_meta a a"
  using preorder_step_meta unfolding preorder_on_st_def by blast

lemma data_hit: "cached (data_cache j) = Some d \<Longrightarrow> data (j, w) = (Inr d, (j, w))"
  by (simp add: data_eq)

lemma data_post:
  assumes "data (j, w) = (Inr d, (j', w'))"
  shows "j' = j\<lparr>data_cache := data_cache j'\<rparr>" and "d \<noteq> [] \<Longrightarrow> cached (data_cache j') = Some d"
proof -
  show "j' = j\<lparr>data_cache := data_cache j'\<rparr>"
    using assms by (auto simp: data_eq split: option.splits sum.splits)
  show "d \<noteq> [] \<Longrightarrow> cached (data_cache j') = Some d"
    using assms by (auto simp: data_eq split: option.splits sum.splits)
qed

lemma rhcos_version_eq:
  "rhcos_version (j, w) =
     (case cached (rhcos_version_cache j) of
        Some v \<Rightarrow> (Inr (Some v), (j, w))
      | None \<Rightarrow>
          (case data (j, w) of
             (Inl e, s1) \<Rightarrow> (Inl e, s1)
           | (Inr d, s1) \<Rightarrow>
               (case search_machine_os d of
                  None \<Rightarrow>
                    (Inr None,
                     (fst s1, log_event (LogInfo (''Unable to find RHCOS version for '' @ version j))
                                (snd s1)))
                | Some g \<Rightarrow>
                    (Inr (Some g),
                     ((fst s1)\<lparr>rhcos_version_cache := Some g\<rparr>,
                      log_event (LogInfo (''RHCOS version '' @ g)) (snd s1))))))"
  by (simp add: rhcos_version_def prim_defs log_event_def split: option.split sum.split prod.split)

lemma rhcos_version_hit:
  "cached (rhcos_version_cache j) = Some v \<Longrightarrow> rhcos_version (j, w) = (Inr (Some v), (j, w))"
  by (simp add: rhcos_version_eq)

lemma search_machine_os_Nil: "search_machine_os d = Some g \<Longrightarrow> d \<noteq> []"
  by (cases d) simp_all

lemma keeps_meta_rhcos_version: "keeps step_meta rhcos_version"
  unfolding keeps_def
proof (intro allI)
  fix s :: st
  obtain j w where s: "s = (j, w)" by (cases s)
  show "step_meta s (snd (rhcos_version s))"
  proof (cases "cached (rhcos_version_cache j)")
    case (Some v)
    then show ?thesis by (simp add: s rhcos_version_eq step_meta_refl)
  next
    case None
    obtain r j1 w1 where d: "data (j, w) = (r, (j1, w1))" by (cases "data (j, w)") auto
    have m1: "step_meta (j, w) (j1, w1)" using keeps_meta_data d by (rule keepsD)
    show ?thesis
    proof (cases r)
      case (Inl e)
      with None d m1 show ?thesis by (simp add: s rhcos_version_eq)
    next
      case (Inr t)
      show ?thesis
      proof (cases "search_machine_os t")
        case nf: None
        have "step_meta (j1, w1)
                (j1, log_event (LogInfo (''Unable to find RHCOS version for '' @ version j)) w1)"
          by (rule step_meta_unable)
        with m1 have "step_meta (j, w)
                (j1, log_event (LogInfo (''Unable to find RHCOS version for '' @ version j)) w1)"
          by (rule step_meta_trans)
        with None d Inr nf show ?thesis by (simp add: s rhcos_version_eq)
      next
        case (Some g)
        have g: "g \<noteq> []" using Some by (rule search_machine_os_nonempty)
        have t: "t \<noteq> []" using Some by (rule search_machine_os_Nil)
        from d Inr have j1: "j1 = j\<lparr>data_cache := data_cache j1\<rparr>" and c: "cached (data_cache j1) = Some t"
          using t data_post by blast+
        have rv: "cached (rhcos_version_cache j1) = None"
          using None by (subst j1) simp
        have "job_frame (http_get w1) j1 (j1\<lparr>rhcos_version_cache := Some g\<rparr>)"
          using g c rv Some by (simp add: job_frame_def resolve_def)
        then have "step_meta (j1, w1)
                (j1\<lparr>rhcos_version_cache := Some g\<rparr>, log_event (LogInfo (''RHCOS version '' @ g)) w1)"
          by (intro step_meta_log) (simp_all add: meta_event_def)
        with m1 have "step_meta (j, w)
                (j1\<lparr>rhcos_version_cache := Some g\<rparr>, log_event (LogInfo (''RHCOS version '' @ g)) w1)"
          by (rule step_meta_trans)
        with None d Inr Some show ?thesis by (simp add: s rhcos_version_eq)
      qed
    qed
  qed
qed

lemma rhcos_version_value: "fst (rhcos_version (j, w)) = resolve j (http_get w)"
  by (simp add: rhcos_version_eq data_eq resolve_def split: option.split sum.split)

lemma rhcos_version_post:
  assumes "rhcos_version (j, w) = (Inr (Some v), (j', w'))"
  shows "cached (rhcos_version_cache j') = Some v"
proof (cases "cached (rhcos_version_cache j)")
  case (Some a)
  with assms show ?thesis by (simp add: rhcos_version_eq)
next
  case None
  with assms show ?thesis
    by (auto simp: rhcos_version_eq search_machine_os_nonempty split: sum.splits option.splits prod.splits)
qed

lemma keeps_meta_cache:
  "(\<And>j h. job_frame h j (f j)) \<Longrightarrow> keeps step_meta (set_job f)"
  by (rule keeps_set_job) (simp add: step_meta_job)

lemma keeps_get_job0: "preorder_on_st R \<Longrightarrow> keeps R get_job"
  by (simp add: keeps_def preorder_on_st_def get_job_def)

lemma keeps_get_world0: "preorder_on_st R \<Longrightarrow> keeps R get_world"
  by (simp add: keeps_def preorder_on_st_def get_world_def)

lemmas keeps_meta_basic =
  keeps_seq [OF preorder_step_meta] keeps_ret [OF preorder_step_meta]
  keeps_raise [OF preorder_step_meta] keeps_get_job0 [OF preorder_step_meta]
  keeps_get_world0 [OF preorder_step_meta]
  keeps_case_option keeps_Let

lemma keeps_meta_rhcos_filename: "keeps step_meta rhcos_filename"
  unfolding rhcos_filename_def
  by (intro keeps_meta_basic keeps_meta_rhcos_version keeps_meta_cache)
    (simp_all add: job_frame_def resolve_def cong: option.case_cong)

lemma keeps_meta_rhcos_path: "keeps step_meta rhcos_path"
  unfolding rhcos_path_def
  by (intro keeps_meta_basic keeps_meta_rhcos_filename keeps_meta_cache)
    (simp_all add: job_frame_def resolve_def cong: option.case_cong)

lemma keeps_meta_rhcos_url: "keeps step_meta rhcos_url"
  unfolding rhcos_url_def
  by (intro keeps_meta_basic keeps_meta_rhcos_filename keeps_meta_rhcos_version keeps_meta_cache)
    (simp_all add: job_frame_def resolve_def cong: option.case_cong)

lemma rhcos_filename_hit:
  "cached (rhcos_filename_cache j) = Some f \<Longrightarrow> rhcos_filename (j, w) = (Inr f, (j, w))"
  by (simp add: rhcos_filename_def prim_defs)

lemma rhcos_path_hit:
  "cached (rhcos_path_cache j) = Some p \<Longrightarrow> rhcos_path (j, w) = (Inr p, (j, w))"
  by (simp add: rhcos_path_def prim_defs)

lemma rhcos_url_hit:
  "cached (rhcos_url_cache j) = Some u \<Longrightarrow> rhcos_url (j, w) = (Inr u, (j, w))"
  by (simp add: rhcos_url_def prim_defs)

lemma rhcos_filename_post:
  assumes "rhcos_filename (j, w) = (Inr f, (j', w'))"
  shows "cached (rhcos_filename_cache j') = Some f"
proof (cases "cached (rhcos_filename_cache j)")
  case (Some a)
  with assms show ?thesis by (simp add: rhcos_filename_hit)
next
  case None
  with assms show ?thesis
    by (auto simp: rhcos_filename_def prim_defs Let_def split: sum.splits prod.splits)
qed

lemma path_join_nonempty: "b \<noteq> [] \<Longrightarrow> path_join a b \<noteq> []"
  by (simp add: path_join_def)

lemma cached_nonempty: "cached c = Some x \<Longrightarrow> x \<noteq> []"
  by (cases c) (auto split: if_splits)

lemma rhcos_path_post:
  assumes "rhcos_path (j, w) = (Inr p, (j', w'))"
  shows "cached (rhcos_path_cache j') = Some p"
proof (cases "cached (rhcos_path_cache j)")
  case (Some a)
  with assms show ?thesis by (simp add: rhcos_path_hit)
next
  case None
  obtain r j1 w1 where f: "rhcos_filename (j, w) = (r, (j1, w1))"
    by (cases "rhcos_filename (j, w)") auto
  show ?thesis
  proof (cases r)
    case (Inl e)
    with assms None f show ?thesis by (simp add: rhcos_path_def prim_defs)
  next
    case (Inr fn)
    with f have "cached (rhcos_filename_cache j1) = Some fn" by (simp add: rhcos_filename_post)
    then have "fn \<noteq> []" by (rule cached_nonempty)
    then have "path_join (tmpdir w) fn \<noteq> []" by (rule path_join_nonempty)
    with assms None f Inr show ?thesis
      by (auto simp: rhcos_path_def prim_defs Let_def)
  qed
qed

lemma rhcos_url_post:
  assumes "rhcos_url (j, w) = (Inr u, (j', w'))"
  shows "cached (rhcos_url_cache j') = Some u"
proof (cases "cached (rhcos_url_cache j)")
  case (Some a)
  with assms show ?thesis by (simp add: rhcos_url_hit)
next
  case None
  with assms show ?thesis
    by (auto simp: rhcos_url_def prim_defs Let_def base_url_def split: sum.splits prod.splits option.splits)
qed

lemma preorder_same_on: "preorder_on_st (same_on f)"
  by (simp add: preorder_on_st_def same_on_def)

lemma keeps_case_sum:
  "(\<And>x. keeps R (a x)) \<Longrightarrow> (\<And>x. keeps R (b x))
   \<Longrightarrow> keeps R (case v of Inl x \<Rightarrow> a x | Inr x \<Rightarrow> b x)"
  by (cases v) simp_all

lemma keeps_requests_get:
  "preorder_on_st R \<Longrightarrow> (\<And>j w. R (j, w) (j, log_event (HttpGet url) w))
   \<Longrightarrow> keeps R (requests_get url)"
  unfolding requests_get_def
  by (intro keeps_seq keeps_emit keeps_get_world0 keeps_case_sum keeps_raise keeps_ret) simp_all

lemmas keeps_same_basic =
  keeps_seq [OF preorder_same_on] keeps_ret [OF preorder_same_on]
  keeps_raise [OF preorder_same_on] keeps_get_job0 [OF preorder_same_on]
  keeps_get_world0 [OF preorder_same_on] keeps_requests_get [OF preorder_same_on]
  keeps_case_option keeps_case_list keeps_case_sum keeps_if keeps_Let
  keeps_info keeps_emit keeps_set_job keeps_set_world

lemma keeps_path_cache_rhcos_url: "keeps (same_on (\<lambda>s. rhcos_path_cache (fst s))) rhcos_url"
  unfolding rhcos_url_def rhcos_filename_def rhcos_version_def data_def
  by (intro keeps_same_basic) (simp_all add: same_on_def)

lemma extends_filter:
  assumes "extends P w w'" "\<And>ev. P ev \<Longrightarrow> \<not> Q ev"
  shows "filter Q (trace w') = filter Q (trace w)"
proof -
  from assms(1) obtain evs where e: "trace w' = trace w @ evs" "list_all P evs"
    unfolding extends_def by blast
  with assms(2) have "filter Q evs = []" by (auto simp: list_all_iff filter_empty_conv)
  with e show ?thesis by simp
qed

subsection \<open>Caching of the derived fields\<close>

text \<open>
  C9, as the code has it. Each property tests its attribute with \<^verbatim>\<open>if not self._x\<close>, so a
  field is cached once an access has produced a non-empty value: after an access that
  returned a non-empty release text, a found RHCOS version, a filename, a path or a URL,
  every later access on the job returns the same value and leaves the job and the world
  (so also the trace: no request, no log line) as they are, whatever the world is by
  then.
\<close>

theorem derived_fields_cached:
  "(data s = (Inr d, sa) \<and> d \<noteq> [] \<longrightarrow> (\<forall>w. data (fst sa, w) = (Inr d, (fst sa, w))))
   \<and> (rhcos_version s = (Inr (Some v), sb)
        \<longrightarrow> (\<forall>w. rhcos_version (fst sb, w) = (Inr (Some v), (fst sb, w))))
   \<and> (rhcos_filename s = (Inr f, sc)
        \<longrightarrow> (\<forall>w. rhcos_filename (fst sc, w) = (Inr f, (fst sc, w))))
   \<and> (rhcos_path s = (Inr p, sd)
        \<longrightarrow> (\<forall>w. rhcos_path (fst sd, w) = (Inr p, (fst sd, w))))
   \<and> (rhcos_url s = (Inr u, se)
        \<longrightarrow> (\<forall>w. rhcos_url (fst se, w) = (Inr u, (fst se, w))))"
proof (intro conjI impI allI)
  fix w
  assume "data s = (Inr d, sa) \<and> d \<noteq> []"
  then have "cached (data_cache (fst sa)) = Some d"
    using data_post(2) [of "fst s" "snd s" d "fst sa" "snd sa"] by simp
  then show "data (fst sa, w) = (Inr d, (fst sa, w))" by (rule data_hit)
next
  fix w
  assume "rhcos_version s = (Inr (Some v), sb)"
  then have "cached (rhcos_version_cache (fst sb)) = Some v"
    using rhcos_version_post [of "fst s" "snd s" v "fst sb" "snd sb"] by simp
  then show "rhcos_version (fst sb, w) = (Inr (Some v), (fst sb, w))"
    by (rule rhcos_version_hit)
next
  fix w
  assume "rhcos_filename s = (Inr f, sc)"
  then have "cached (rhcos_filename_cache (fst sc)) = Some f"
    using rhcos_filename_post [of "fst s" "snd s" f "fst sc" "snd sc"] by simp
  then show "rhcos_filename (fst sc, w) = (Inr f, (fst sc, w))"
    by (rule rhcos_filename_hit)
next
  fix w
  assume "rhcos_path s = (Inr p, sd)"
  then have "cached (rhcos_path_cache (fst sd)) = Some p"
    using rhcos_path_post [of "fst s" "snd s" p "fst sd" "snd sd"] by simp
  then show "rhcos_path (fst sd, w) = (Inr p, (fst sd, w))" by (rule rhcos_path_hit)
next
  fix w
  assume "rhcos_url s = (Inr u, se)"
  then have "cached (rhcos_url_cache (fst se)) = Some u"
    using rhcos_url_post [of "fst s" "snd s" u "fst se" "snd se"] by simp
  then show "rhcos_url (fst se, w) = (Inr u, (fst se, w))" by (rule rhcos_url_hit)
qed

text \<open>
  The claim as written fails where the value is empty or not found. On a server that
  answers the release text with an empty body, the first access returns the empty text
  and the second access sends the request again. On a release text without the token,
  the version is searched, and the line logged, at every access.
\<close>

theorem derived_fields_recomputed_counterexample:
  "fst (data (OpenShiftRelease ''4.7.3'' bucket_name, empty_text_world)) = Inr []
   \<and> trace (snd (snd (data (snd (data
        (OpenShiftRelease ''4.7.3'' bucket_name, empty_text_world))))))
       = [HttpGet (release_txt_url ''4.7.3''), HttpGet (release_txt_url ''4.7.3'')]
   \<and> fst (rhcos_version (OpenShiftRelease ''4.7.3'' bucket_name, no_version_world)) = Inr None
   \<and> trace (snd (snd (rhcos_version (snd (rhcos_version
        (OpenShiftRelease ''4.7.3'' bucket_name, no_version_world))))))
       = [HttpGet (release_txt_url ''4.7.3''),
          LogInfo ''Unable to find RHCOS version for 4.7.3'',
          LogInfo ''Unable to find RHCOS version for 4.7.3'']"
proof -
  have a: "fst (data (OpenShiftRelease ''4.7.3'' bucket_name, empty_text_world)) = Inr []"
    by (simp add: data_eq OpenShiftRelease_def empty_text_world_def quiet_world_def)
  have b: "trace (snd (snd (data (snd (data
        (OpenShiftRelease ''4.7.3'' bucket_name, empty_text_world))))))
       = [HttpGet (release_txt_url ''4.7.3''), HttpGet (release_txt_url ''4.7.3'')]"
    by (simp add: data_eq OpenShiftRelease_def empty_text_world_def quiet_world_def
        log_event_def)
  have c: "fst (rhcos_version (OpenShiftRelease ''4.7.3'' bucket_name, no_version_world))
             = Inr None"
    by (simp add: rhcos_version_eq data_eq OpenShiftRelease_def no_version_world_def
        quiet_world_def version_char_def is_digit_def)
  have d: "trace (snd (snd (rhcos_version (snd (rhcos_version
        (OpenShiftRelease ''4.7.3'' bucket_name, no_version_world))))))
       = [HttpGet (release_txt_url ''4.7.3''),
          LogInfo ''Unable to find RHCOS version for 4.7.3'',
          LogInfo ''Unable to find RHCOS version for 4.7.3'']"
    by (simp add: rhcos_version_eq data_eq OpenShiftRelease_def no_version_world_def
        quiet_world_def version_char_def is_digit_def log_event_def)
  from a b c d show ?thesis by blast
qed

theorem derived_fields_cached_witness:
  "data (OpenShiftRelease ''4.7.3'' bucket_name, small_download_world)
     = (Inr ''Name: 4.7.3 machine-os 47.83.202103251640-0 Red Hat'',
        snd (data (OpenShiftRelease ''4.7.3'' bucket_name, small_download_world)))
   \<and> data (fst (snd (data (OpenShiftRelease ''4.7.3'' bucket_name, small_download_world))),
            quiet_world)
     = (Inr ''Name: 4.7.3 machine-os 47.83.202103251640-0 Red Hat'',
        (fst (snd (data (OpenShiftRelease ''4.7.3'' bucket_name, small_download_world))),
         quiet_world))"
proof -
  let ?s = "(OpenShiftRelease ''4.7.3'' bucket_name, small_download_world)"
  let ?d = "''Name: 4.7.3 machine-os 47.83.202103251640-0 Red Hat''"
  have a: "data ?s = (Inr ?d, snd (data ?s))"
    by (simp add: data_eq OpenShiftRelease_def small_download_world_def quiet_world_def)
  have b: "?d \<noteq> []" by simp
  from derived_fields_cached [of ?s ?d "snd (data ?s)"] a b
  have "\<forall>w. data (fst (snd (data ?s)), w) = (Inr ?d, (fst (snd (data ?s)), w))"
    by blast
  with a show ?thesis by blast
qed

subsection \<open>A release text without the RHCOS version\<close>

text \<open>
  C5, as the code has it. When the version is not cached and the release text has no
  match, \<^verbatim>\<open>rhcos_version\<close> returns \<^verbatim>\<open>None\<close> without raising, logs one line, and leaves the
  caches of the version, the filename, the path and the URL as they were.
\<close>

theorem rhcos_version_not_found:
  assumes "cached (rhcos_version_cache j) = None"
    and "fst (data (j, w)) = Inr d"
    and "search_machine_os d = None"
  shows "rhcos_version (j, w) =
           (Inr None,
            (fst (snd (data (j, w))),
             log_event (LogInfo (''Unable to find RHCOS version for '' @ version j))
               (snd (snd (data (j, w))))))
         \<and> rhcos_version_cache (fst (snd (rhcos_version (j, w)))) = rhcos_version_cache j
         \<and> rhcos_filename_cache (fst (snd (rhcos_version (j, w)))) = rhcos_filename_cache j
         \<and> rhcos_path_cache (fst (snd (rhcos_version (j, w)))) = rhcos_path_cache j
         \<and> rhcos_url_cache (fst (snd (rhcos_version (j, w)))) = rhcos_url_cache j"
proof -
  obtain j1 w1 where d: "data (j, w) = (Inr d, (j1, w1))"
    using assms(2) by (cases "data (j, w)") auto
  then have j1: "j1 = j\<lparr>data_cache := data_cache j1\<rparr>" by (rule data_post)
  have r: "rhcos_version (j, w) =
           (Inr None,
            (j1, log_event (LogInfo (''Unable to find RHCOS version for '' @ version j)) w1))"
    using assms(1,3) d by (simp add: rhcos_version_eq)
  have "rhcos_version_cache j1 = rhcos_version_cache j"
    "rhcos_filename_cache j1 = rhcos_filename_cache j"
    "rhcos_path_cache j1 = rhcos_path_cache j"
    "rhcos_url_cache j1 = rhcos_url_cache j"
    by (subst j1, simp)+
  with r d show ?thesis by simp
qed

theorem rhcos_version_not_found_witness:
  "cached (rhcos_version_cache (OpenShiftRelease ''4.7.3'' bucket_name)) = None
   \<and> fst (data (OpenShiftRelease ''4.7.3'' bucket_name, no_version_world))
       = Inr ''Name: 4.7.3 machine-os-content sha256:0000''
   \<and> search_machine_os ''Name: 4.7.3 machine-os-content sha256:0000'' = None
   \<and> fst (rhcos_version (OpenShiftRelease ''4.7.3'' bucket_name, no_version_world)) = Inr None
   \<and> rhcos_filename_cache (fst (snd (rhcos_version
        (OpenShiftRelease ''4.7.3'' bucket_name, no_version_world)))) = None"
proof -
  have a: "cached (rhcos_version_cache (OpenShiftRelease ''4.7.3'' bucket_name)) = None"
    by (simp add: OpenShiftRelease_def)
  have b: "fst (data (OpenShiftRelease ''4.7.3'' bucket_name, no_version_world))
             = Inr ''Name: 4.7.3 machine-os-content sha256:0000''"
    by (simp add: data_eq OpenShiftRelease_def no_version_world_def quiet_world_def)
  have c: "search_machine_os ''Name: 4.7.3 machine-os-content sha256:0000'' = None"
    by (simp add: version_char_def is_digit_def)
  have d: "rhcos_filename_cache (OpenShiftRelease ''4.7.3'' bucket_name) = None"
    by (simp add: OpenShiftRelease_def)
  note t = rhcos_version_not_found [OF a b c]
  from t have e: "fst (rhcos_version (OpenShiftRelease ''4.7.3'' bucket_name, no_version_world))
                    = Inr None"
    by (metis fst_conv)
  from t d have f: "rhcos_filename_cache (fst (snd (rhcos_version
        (OpenShiftRelease ''4.7.3'' bucket_name, no_version_world)))) = None"
    by metis
  from a b c e f show ?thesis by blast
qed

text \<open>
  The claim as written fails after the resolver: nothing in the pipeline tests for the
  missing version. For release 4.7.3 with such a release text and an empty bucket, the
  filename is derived from the text None and cached, \<^verbatim>\<open>register_image\<close> asks the bucket for
  that key, and the job ends with the TypeError that \<^verbatim>\<open>rhcos_url\<close> raises.
\<close>

theorem not_found_not_skipped_counterexample:
  "fst (rhcos_version (OpenShiftRelease ''4.7.3'' bucket_name, no_version_world)) = Inr None
   \<and> fst (rhcos_filename (OpenShiftRelease ''4.7.3'' bucket_name, no_version_world))
       = Inr ''rhcos-None-aws.x86_64.vmdk''
   \<and> rhcos_filename_cache (fst (snd (rhcos_filename
        (OpenShiftRelease ''4.7.3'' bucket_name, no_version_world))))
       = Some ''rhcos-None-aws.x86_64.vmdk''
   \<and> fst (rhcos_path (OpenShiftRelease ''4.7.3'' bucket_name, no_version_world))
       = Inr ''/tmp/rhcos-None-aws.x86_64.vmdk''
   \<and> fst (register_image (OpenShiftRelease ''4.7.3'' bucket_name, no_version_world))
       = Inl TypeError
   \<and> ListObjectsV2 ''io-rhdt-govcloud-vmimport'' ''rhcos-None-aws.x86_64.vmdk''
       \<in> set (trace (snd (snd (register_image
            (OpenShiftRelease ''4.7.3'' bucket_name, no_version_world)))))"
proof -
  have a: "fst (rhcos_version (OpenShiftRelease ''4.7.3'' bucket_name, no_version_world))
             = Inr None"
    by code_simp
  have b: "fst (rhcos_filename (OpenShiftRelease ''4.7.3'' bucket_name, no_version_world))
       = Inr ''rhcos-None-aws.x86_64.vmdk''"
    by code_simp
  have c: "rhcos_filename_cache (fst (snd (rhcos_filename
        (OpenShiftRelease ''4.7.3'' bucket_name, no_version_world))))
       = Some ''rhcos-None-aws.x86_64.vmdk''"
    by code_simp
  have d: "fst (rhcos_path (OpenShiftRelease ''4.7.3'' bucket_name, no_version_world))
       = Inr ''/tmp/rhcos-None-aws.x86_64.vmdk''"
    by code_simp
  have e: "fst (register_image (OpenShiftRelease ''4.7.3'' bucket_name, no_version_world))
       = Inl TypeError"
    by code_simp
  have f: "ListObjectsV2 ''io-rhdt-govcloud-vmimport'' ''rhcos-None-aws.x86_64.vmdk''
       \<in> set (trace (snd (snd (register_image
            (OpenShiftRelease ''4.7.3'' bucket_name, no_version_world)))))"
    by code_simp
  from a b c d e f show ?thesis by blast
qed

subsection \<open>The size check of the download\<close>

lemma size_check: "(real n / (1024 * 1024) < 100) = (n < 100 * 1024 * 1024)"
  by (simp add: field_simps)

lemma meta_not_gunzip: "meta_event v ev \<Longrightarrow> \<not> is_gunzip ev"
  by (cases ev) (simp_all add: meta_event_def is_gunzip_def)

text \<open>
  C6. Let \<open>p\<close> be the local path and \<open>u\<close> the URL the job derives, with no file at \<open>p\<close>
  and the server answering \<open>u\<close> with \<open>body\<close>. Then \<^verbatim>\<open>download_rhcos\<close> raises the size
  error exactly when \<open>body\<close> is shorter than 100 MiB; and when it does, there is still no
  file at \<open>p\<close> and no unpacking was started.
\<close>

theorem download_rhcos_size_check:
  assumes p: "fst (rhcos_path (j, w)) = Inr p"
    and nofile: "fs w p = None"
    and u: "fst (rhcos_url (snd (rhcos_path (j, w)))) = Inr u"
    and body: "http_get w u = Inr body"
  shows "((\<exists>n. fst (download_rhcos (j, w)) = Inl (FileSizeTooSmall n))
            \<longleftrightarrow> length body < 100 * 1024 * 1024)
    \<and> (length body < 100 * 1024 * 1024 \<longrightarrow>
          fst (download_rhcos (j, w)) = Inl (FileSizeTooSmall (length body))
          \<and> fs (snd (snd (download_rhcos (j, w)))) p = None
          \<and> filter is_gunzip (trace (snd (snd (download_rhcos (j, w)))))
              = filter is_gunzip (trace w))"
proof -
  obtain j1 w1 where p: "rhcos_path (j, w) = (Inr p, (j1, w1))"
    using p by (cases "rhcos_path (j, w)") auto
  obtain j2 w2 where u: "rhcos_url (j1, w1) = (Inr u, (j2, w2))"
    using u p by (cases "rhcos_url (j1, w1)") auto
  have m1: "step_meta (j, w) (j1, w1)" using keeps_meta_rhcos_path p by (rule keepsD)
  have m2: "step_meta (j1, w1) (j2, w2)" using keeps_meta_rhcos_url u by (rule keepsD)
  have m12: "step_meta (j, w) (j2, w2)" using m1 m2 by (rule step_meta_trans)
  have u1: "untraced w1 = untraced w" using m1 by (simp add: step_meta_def)
  have u2: "untraced w2 = untraced w" using m12 by (simp add: step_meta_def)
  have fs1: "fs w1 = fs w" using u1 by (rule untraced_fields)
  have fs2: "fs w2 = fs w" using u2 by (rule untraced_fields)
  have h2: "http_get w2 = http_get w" using u2 by (rule untraced_fields)
  have pc1: "cached (rhcos_path_cache j1) = Some p" using p by (rule rhcos_path_post)
  have "same_on (\<lambda>s. rhcos_path_cache (fst s)) (j1, w1) (j2, w2)"
    using keeps_path_cache_rhcos_url u by (rule keepsD)
  with pc1 have pc2: "cached (rhcos_path_cache j2) = Some p" by (simp add: same_on_def)
  have uc2: "cached (rhcos_url_cache j2) = Some u" using u by (rule rhcos_url_post)
  have g: "filter is_gunzip (trace w2) = filter is_gunzip (trace w)"
    using m12 by (intro extends_filter [of "meta_event (version j)"])
      (simp_all add: step_meta_def meta_not_gunzip)
  let ?gz = "p @ ''.gz''"
  let ?w3 = "w2\<lparr>trace := trace w2 @ [LogInfo (''Downloading '' @ u), HttpGet u, OpenWrite ?gz,
                  LogInfo (''Saving '' @ ?gz)], fs := (fs w)(?gz \<mapsto> body)\<rparr>"
  have run: "download_rhcos (j, w) =
      (if length body < 100 * 1024 * 1024
       then (Inl (FileSizeTooSmall (length body)), (j2, ?w3))
       else seq (info (''Unpacking '' @ ?gz)) (\<lambda>_.
            seq (gunzip_to ?gz p) (\<lambda>_. remove_file ?gz)) (j2, ?w3))"
    using p u nofile body fs1 fs2 h2
    by (simp add: download_rhcos_def seq_def rhcos_path_hit [OF pc2] rhcos_url_hit [OF uc2]
        path_exists_def requests_get_def open_write_def write_bytes_def getsize_def
        get_world_def ret_def raise_def emit_def info_def set_world_def size_check Let_def)
  have ok: "\<not> length body < 100 * 1024 * 1024
      \<Longrightarrow> fst (download_rhcos (j, w)) \<noteq> Inl (FileSizeTooSmall n)" for n
    by (simp add: run seq_def info_def emit_def set_world_def gunzip_to_def get_world_def
        remove_file_def raise_def ret_def split: option.split)
  have small: "length body < 100 * 1024 * 1024 \<Longrightarrow>
          fst (download_rhcos (j, w)) = Inl (FileSizeTooSmall (length body))
          \<and> fs (snd (snd (download_rhcos (j, w)))) p = None
          \<and> filter is_gunzip (trace (snd (snd (download_rhcos (j, w)))))
              = filter is_gunzip (trace w)"
    using nofile g by (simp add: run is_gunzip_def)
  from ok small show ?thesis by blast
qed

theorem download_rhcos_size_check_witness:
  "fst (rhcos_path (OpenShiftRelease ''4.7.3'' bucket_name, small_download_world))
     = Inr ''/tmp/rhcos-47.83.202103251640-0-aws.x86_64.vmdk''
   \<and> fs small_download_world ''/tmp/rhcos-47.83.202103251640-0-aws.x86_64.vmdk'' = None
   \<and> fst (rhcos_url (snd (rhcos_path (OpenShiftRelease ''4.7.3'' bucket_name,
                                        small_download_world))))
       = Inr (base_url @ ''/rhcos-4.7/47.83.202103251640-0/x86_64/''
              @ ''rhcos-47.83.202103251640-0-aws.x86_64.vmdk.gz'')
   \<and> http_get small_download_world
        (base_url @ ''/rhcos-4.7/47.83.202103251640-0/x86_64/''
         @ ''rhcos-47.83.202103251640-0-aws.x86_64.vmdk.gz'') = Inr ''tiny''
   \<and> fst (download_rhcos (OpenShiftRelease ''4.7.3'' bucket_name, small_download_world))
       = Inl (FileSizeTooSmall 4)"
proof -
  let ?s = "(OpenShiftRelease ''4.7.3'' bucket_name, small_download_world)"
  let ?p = "''/tmp/rhcos-47.83.202103251640-0-aws.x86_64.vmdk''"
  let ?u = "base_url @ ''/rhcos-4.7/47.83.202103251640-0/x86_64/''
              @ ''rhcos-47.83.202103251640-0-aws.x86_64.vmdk.gz''"
  have a: "fst (rhcos_path ?s) = Inr ?p" by code_simp
  have b: "fs small_download_world ?p = None"
    by (simp add: small_download_world_def quiet_world_def)
  have c: "fst (rhcos_url (snd (rhcos_path ?s))) = Inr ?u" by code_simp
  have d: "http_get small_download_world ?u = Inr ''tiny''" by code_simp
  from download_rhcos_size_check [OF a b c d] a b c d show ?thesis by simp
qed

subsection \<open>Frames of the stages\<close>

lemma step_refl: "step rest P s s"
  by (simp add: step_def job_frame_refl extends_refl)

lemma step_trans:
  assumes ok: "frame_ok rest P" and ab: "step rest P a b" and bc: "step rest P b c"
  shows "step rest P a c"
proof -
  from ab have "rest (snd b) = rest (snd a)" by (simp add: step_def)
  with ok have h: "http_get (snd b) = http_get (snd a)" unfolding frame_ok_def by blast
  from ab bc have e: "extends P (snd a) (snd c)"
    unfolding step_def by (metis extends_trans)
  from ab bc h have j: "job_frame (http_get (snd a)) (fst a) (fst c)"
    by (simp add: step_def job_frame_def)
  from ab bc have u: "rest (snd c) = rest (snd a)" by (simp add: step_def)
  from e j u show ?thesis by (simp add: step_def)
qed

lemma preorder_step: "frame_ok rest P \<Longrightarrow> preorder_on_st (step rest P)"
  unfolding preorder_on_st_def using step_refl step_trans by blast

lemma step_of_meta:
  assumes ok: "frame_ok rest P" and m: "step_meta s s'"
  shows "step rest P s s'"
proof -
  from m have "untraced (snd s') = untraced (snd s)" by (simp add: step_meta_def)
  with ok have r: "rest (snd s') = rest (snd s)" unfolding frame_ok_def by blast
  from m have "extends (meta_event (version (fst s))) (snd s) (snd s')"
    by (simp add: step_meta_def)
  then have e: "extends P (snd s) (snd s')"
    using ok unfolding frame_ok_def by (metis extends_mono)
  from m r e show ?thesis by (simp add: step_def step_meta_def)
qed

lemma keeps_step_of_meta: "frame_ok rest P \<Longrightarrow> keeps step_meta m \<Longrightarrow> keeps (step rest P) m"
  unfolding keeps_def using step_of_meta by blast

lemma untraced_log_event: "untraced (log_event ev w) = untraced w"
  by (simp add: untraced_def log_event_def)

lemma step_log:
  assumes ok: "frame_ok rest P" and p: "P ev"
  shows "step rest P (j, w) (j, log_event ev w)"
proof -
  have "rest (log_event ev w) = rest w"
    using ok untraced_log_event unfolding frame_ok_def by blast
  moreover have "extends P w (log_event ev w)"
    using p by (simp add: log_event_def extends_emit)
  ultimately show ?thesis by (simp add: step_def job_frame_refl)
qed

lemma step_world:
  "rest (f w) = rest w \<Longrightarrow> trace (f w) = trace w \<Longrightarrow> step rest P (j, w) (j, f w)"
  by (simp add: step_def job_frame_refl extends_def)

lemma keeps_provider_call:
  "preorder_on_st R \<Longrightarrow> (\<And>j w. R (j, w) (j, log_event ev w)) \<Longrightarrow> keeps R (provider_call ev)"
  unfolding provider_call_def
  by (intro keeps_seq keeps_emit keeps_get_world0 keeps_case_option keeps_raise keeps_ret) simp_all

lemma startswith_take: "startswith m p \<Longrightarrow> n \<le> length p \<Longrightarrow> take n m = take n p"
proof (induction m p arbitrary: n rule: startswith.induct)
  case (3 d s c p)
  then show ?case by (cases n) auto
qed simp_all

lemma meta_is_stage: "meta_event v ev \<Longrightarrow> stage_event ev"
proof (cases ev)
  case (LogInfo m)
  assume "meta_event v ev"
  with LogInfo have "startswith m ''Unable to find RHCOS version for ''
                     \<or> startswith m ''RHCOS version ''"
    by (simp add: meta_event_def)
  then have a: "take 1 m = ''U'' \<or> take 1 m = ''R''"
    using startswith_take [of m "''Unable to find RHCOS version for ''" 1]
      startswith_take [of m "''RHCOS version ''" 1] by auto
  have "\<not> startswith m ''Processing OpenShift ''"
    using a startswith_take [of m "''Processing OpenShift ''" 1] by auto
  with LogInfo show ?thesis by (simp add: stage_event_def)
qed (simp_all add: meta_event_def stage_event_def)

lemma stage_is_import: "stage_event ev \<Longrightarrow> import_event ev"
  by (cases ev) (simp_all add: import_event_def)

lemma import_is_register: "import_event ev \<Longrightarrow> register_event ev"
  by (cases ev) (simp_all add: register_event_def import_event_def)

lemma frame_ok_stage: "frame_ok stage_rest stage_event"
  unfolding frame_ok_def
proof (intro conjI allI impI)
  fix w w' assume "stage_rest w' = stage_rest w"
  then have "http_get (stage_rest w') = http_get (stage_rest w)" by simp
  then show "http_get w' = http_get w" by (simp add: stage_rest_def)
next
  fix w w' assume "untraced w' = untraced w"
  then have "(untraced w')\<lparr>fs := (\<lambda>p. None), s3 := []\<rparr> = (untraced w)\<lparr>fs := (\<lambda>p. None), s3 := []\<rparr>"
    by simp
  then show "stage_rest w' = stage_rest w" by (simp add: stage_rest_def untraced_def)
next
  fix v ev assume "meta_event v ev"
  then show "stage_event ev" by (rule meta_is_stage)
qed

lemma frame_ok_import: "frame_ok import_rest import_event"
  unfolding frame_ok_def
proof (intro conjI allI impI)
  fix w w' assume "import_rest w' = import_rest w"
  then have "http_get (import_rest w') = http_get (import_rest w)" by simp
  then show "http_get w' = http_get w" by (simp add: import_rest_def)
next
  fix w w' assume "untraced w' = untraced w"
  then have "(untraced w')\<lparr>fs := (\<lambda>p. None), s3 := [], snapshots := [], clock := 0, id_next := 0\<rparr>
           = (untraced w)\<lparr>fs := (\<lambda>p. None), s3 := [], snapshots := [], clock := 0, id_next := 0\<rparr>"
    by simp
  then show "import_rest w' = import_rest w" by (simp add: import_rest_def untraced_def)
next
  fix v ev assume "meta_event v ev"
  then show "import_event ev" by (intro stage_is_import meta_is_stage)
qed

lemma frame_ok_register: "frame_ok register_rest register_event"
  unfolding frame_ok_def
proof (intro conjI allI impI)
  fix w w' assume "register_rest w' = register_rest w"
  then have "http_get (register_rest w') = http_get (register_rest w)" by simp
  then show "http_get w' = http_get w" by (simp add: register_rest_def)
next
  fix w w' assume "untraced w' = untraced w"
  then have "(untraced w')\<lparr>fs := (\<lambda>p. None), s3 := [], snapshots := [], clock := 0, id_next := 0, images := []\<rparr>
           = (untraced w)\<lparr>fs := (\<lambda>p. None), s3 := [], snapshots := [], clock := 0, id_next := 0, images := []\<rparr>"
    by simp
  then show "register_rest w' = register_rest w" by (simp add: register_rest_def untraced_def)
next
  fix v ev assume "meta_event v ev"
  then show "register_event ev" by (intro import_is_register stage_is_import meta_is_stage)
qed

text \<open>The stages, for any frame that lets their events and their fields through.\<close>

lemma keeps_download_rhcos:
  assumes ok: "frame_ok rest P"
    and ev: "\<And>ev. stage_event ev \<Longrightarrow> P ev"
    and fsf: "\<And>w g. rest (w\<lparr>fs := g\<rparr>) = rest w"
  shows "keeps (step rest P) download_rhcos"
  unfolding download_rhcos_def path_exists_def open_write_def write_bytes_def getsize_def
    gunzip_to_def remove_file_def
  by (intro keeps_seq [OF preorder_step [OF ok]] keeps_ret [OF preorder_step [OF ok]]
      keeps_raise [OF preorder_step [OF ok]] keeps_get_world0 [OF preorder_step [OF ok]]
      keeps_requests_get [OF preorder_step [OF ok]]
      keeps_step_of_meta [OF ok keeps_meta_rhcos_path]
      keeps_step_of_meta [OF ok keeps_meta_rhcos_url]
      keeps_if keeps_Let keeps_case_option keeps_info keeps_emit keeps_set_world
      step_log [OF ok] step_world ev)
    (simp_all add: stage_event_def fsf)

lemmas keeps_cases =
  keeps_if keeps_Let keeps_case_option keeps_case_list keeps_case_sum
  keeps_info keeps_emit keeps_set_world

lemma keeps_upload_rhcos:
  assumes ok: "frame_ok rest P"
    and ev: "\<And>ev. stage_event ev \<Longrightarrow> P ev"
    and fsf: "\<And>w g. rest (w\<lparr>fs := g\<rparr>) = rest w"
    and s3f: "\<And>w g. rest (w\<lparr>s3 := g\<rparr>) = rest w"
  shows "keeps (step rest P) upload_rhcos"
  unfolding upload_rhcos_def list_objects_v2_def read_file_def upload_fileobj_def remove_file_def
  by (intro keeps_seq [OF preorder_step [OF ok]] keeps_ret [OF preorder_step [OF ok]]
      keeps_raise [OF preorder_step [OF ok]] keeps_get_world0 [OF preorder_step [OF ok]]
      keeps_get_job0 [OF preorder_step [OF ok]]
      keeps_provider_call [OF preorder_step [OF ok]]
      keeps_step_of_meta [OF ok keeps_meta_rhcos_path]
      keeps_step_of_meta [OF ok keeps_meta_rhcos_filename]
      keeps_download_rhcos [OF ok ev fsf]
      keeps_cases step_log [OF ok] step_world ev)
    (simp_all add: stage_event_def fsf s3f)

lemma keeps_poll_once:
  assumes ok: "frame_ok rest P"
    and ev: "\<And>ev. import_event ev \<Longrightarrow> P ev"
    and snf: "\<And>w g. rest (w\<lparr>snapshots := g\<rparr>) = rest w"
  shows "keeps (step rest P) (poll_once tid)"
  unfolding poll_once_def describe_import_snapshot_tasks_def create_tags_def
  by (intro keeps_seq [OF preorder_step [OF ok]] keeps_ret [OF preorder_step [OF ok]]
      keeps_raise [OF preorder_step [OF ok]] keeps_get_world0 [OF preorder_step [OF ok]]
      keeps_provider_call [OF preorder_step [OF ok]]
      keeps_step_of_meta [OF ok keeps_meta_rhcos_version]
      keeps_cases step_log [OF ok] step_world ev)
    (simp_all add: import_event_def stage_event_def snf)

lemma keeps_sleep:
  assumes ok: "frame_ok rest P"
    and ev: "\<And>ev. import_event ev \<Longrightarrow> P ev"
    and clf: "\<And>w g. rest (w\<lparr>clock := g\<rparr>) = rest w"
  shows "keeps (step rest P) (sleep n)"
  unfolding sleep_def
  by (intro keeps_seq [OF preorder_step [OF ok]] keeps_cases step_log [OF ok] step_world ev)
    (simp_all add: import_event_def clf)

lemma keeps_poll_loop:
  assumes ok: "frame_ok rest P"
    and ev: "\<And>ev. import_event ev \<Longrightarrow> P ev"
    and snf: "\<And>w g. rest (w\<lparr>snapshots := g\<rparr>) = rest w"
    and clf: "\<And>w g. rest (w\<lparr>clock := g\<rparr>) = rest w"
  shows "keeps (step rest P) (poll_loop tid t)"
proof -
  have "step rest P s (snd (poll_loop tid t s))" for s
  proof (induction tid t s rule: poll_loop.induct)
    case (1 tid t s)
    obtain r s1 where po: "poll_once tid s = (r, s1)" by (cases "poll_once tid s")
    have a: "step rest P s s1"
      using keeps_poll_once [OF ok ev snf] po by (rule keepsD)
    show ?case
    proof (cases r)
      case (Inl e)
      with po a show ?thesis by (simp add: poll_loop.simps [of tid t s])
    next
      case (Inr v)
      show ?thesis
      proof (cases v)
        case (Some sid)
        with Inr po a show ?thesis by (simp add: poll_loop.simps [of tid t s])
      next
        case None
        obtain r2 s2 where sl: "sleep 10 s1 = (r2, s2)" by (cases "sleep 10 s1")
        have "step rest P s1 s2" using keeps_sleep [OF ok ev clf] sl by (rule keepsD)
        with a have b: "step rest P s s2" by (rule step_trans [OF ok])
        show ?thesis
        proof (cases r2)
          case (Inl e)
          with Inr None po sl b show ?thesis by (simp add: poll_loop.simps [of tid t s])
        next
          case r2: (Inr u)
          show ?thesis
          proof (cases "t + 10 > 60 * 5")
            case True
            with Inr None po sl b r2 show ?thesis by (simp add: poll_loop.simps [of tid t s])
          next
            case False
            have "step rest P s2 (snd (poll_loop tid (t + 10) s2))"
              using po [symmetric] Inr None sl [symmetric] r2 False by (rule "1.IH")
            with b have "step rest P s (snd (poll_loop tid (t + 10) s2))"
              by (rule step_trans [OF ok])
            with Inr None po sl r2 False show ?thesis
              by (simp add: poll_loop.simps [of tid t s])
          qed
        qed
      qed
    qed
  qed
  then show ?thesis by (simp add: keeps_def)
qed

lemma keeps_import_snapshot:
  assumes ok: "frame_ok rest P"
    and ev: "\<And>ev. import_event ev \<Longrightarrow> P ev"
    and fsf: "\<And>w g. rest (w\<lparr>fs := g\<rparr>) = rest w"
    and s3f: "\<And>w g. rest (w\<lparr>s3 := g\<rparr>) = rest w"
    and snf: "\<And>w g. rest (w\<lparr>snapshots := g\<rparr>) = rest w"
    and clf: "\<And>w g. rest (w\<lparr>clock := g\<rparr>) = rest w"
    and idf: "\<And>w g. rest (w\<lparr>id_next := g\<rparr>) = rest w"
  shows "keeps (step rest P) import_snapshot"
proof -
  have sev: "\<And>ev. stage_event ev \<Longrightarrow> P ev"
    using ev stage_is_import by blast
  show ?thesis
    unfolding import_snapshot_def describe_snapshots_def ec2_import_snapshot_def fresh_id_def
    by (intro keeps_seq [OF preorder_step [OF ok]] keeps_ret [OF preorder_step [OF ok]]
      keeps_raise [OF preorder_step [OF ok]] keeps_get_world0 [OF preorder_step [OF ok]]
      keeps_get_job0 [OF preorder_step [OF ok]]
      keeps_provider_call [OF preorder_step [OF ok]]
      keeps_step_of_meta [OF ok keeps_meta_rhcos_version]
      keeps_step_of_meta [OF ok keeps_meta_rhcos_filename]
      keeps_upload_rhcos [OF ok sev fsf s3f]
      keeps_poll_loop [OF ok ev snf clf]
      keeps_cases step_log [OF ok] step_world ev)
    (simp_all add: import_event_def stage_event_def idf)
qed

lemma keeps_register_image:
  assumes ok: "frame_ok rest P"
    and ev: "\<And>ev. register_event ev \<Longrightarrow> P ev"
    and fsf: "\<And>w g. rest (w\<lparr>fs := g\<rparr>) = rest w"
    and s3f: "\<And>w g. rest (w\<lparr>s3 := g\<rparr>) = rest w"
    and snf: "\<And>w g. rest (w\<lparr>snapshots := g\<rparr>) = rest w"
    and clf: "\<And>w g. rest (w\<lparr>clock := g\<rparr>) = rest w"
    and idf: "\<And>w g. rest (w\<lparr>id_next := g\<rparr>) = rest w"
    and imf: "\<And>w g. rest (w\<lparr>images := g\<rparr>) = rest w"
  shows "keeps (step rest P) register_image"
proof -
  have iev: "\<And>ev. import_event ev \<Longrightarrow> P ev"
    using ev import_is_register by blast
  show ?thesis
    unfolding register_image_def describe_images_def ec2_register_image_def fresh_id_def
      modify_image_attribute_def
    by (intro keeps_seq [OF preorder_step [OF ok]] keeps_ret [OF preorder_step [OF ok]]
      keeps_raise [OF preorder_step [OF ok]] keeps_get_world0 [OF preorder_step [OF ok]]
      keeps_provider_call [OF preorder_step [OF ok]]
      keeps_step_of_meta [OF ok keeps_meta_rhcos_version]
      keeps_import_snapshot [OF ok iev fsf s3f snf clf idf]
      keeps_cases step_log [OF ok] step_world ev)
    (simp_all add: register_event_def import_event_def stage_event_def idf imf)
qed

subsection \<open>Staging when the object is there\<close>

lemma startswith_append: "startswith (p @ s) p"
  by (induction p) simp_all

lemma meta_not_transfer: "meta_event v ev \<Longrightarrow> \<not> transfer_event v ev"
proof (cases ev)
  case (LogInfo m)
  assume "meta_event v ev"
  with LogInfo have "startswith m ''Unable to find RHCOS version for ''
                     \<or> startswith m ''RHCOS version ''"
    by (simp add: meta_event_def)
  then have a: "take 3 m = ''Una'' \<or> take 3 m = ''RHC''"
    using startswith_take [of m "''Unable to find RHCOS version for ''" 3]
      startswith_take [of m "''RHCOS version ''" 3] by auto
  have "\<not> startswith m p" if "take 3 p \<noteq> ''Una''" "take 3 p \<noteq> ''RHC''" "3 \<le> length p" for p
    using a that startswith_take [of m p 3] by auto
  then have "\<not> (startswith m ''Skipping download because '' \<or> startswith m ''Downloading ''
                     \<or> startswith m ''Saving '' \<or> startswith m ''Unpacking ''
                     \<or> startswith m ''Uploading '')"
    by simp
  with LogInfo show ?thesis by (simp add: transfer_event_def)
qed (simp_all add: meta_event_def transfer_event_def)

lemma key_count_pos:
  assumes "ob \<in> set (s3 w)" "obj_bucket ob = b" "obj_key ob = f"
  shows "0 < key_count b f w"
proof -
  have "startswith (obj_key ob) f" using assms(3) startswith_append [of f "[]"] by simp
  with assms have "ob \<in> set (filter (\<lambda>ob. obj_bucket ob = b \<and> startswith (obj_key ob) f) (s3 w))"
    by simp
  then have "filter (\<lambda>ob. obj_bucket ob = b \<and> startswith (obj_key ob) f) (s3 w) \<noteq> []"
    by (metis empty_iff list.set(1))
  then show ?thesis by (simp add: key_count_def)
qed

lemma upload_rhcos_skip:
  assumes f: "rhcos_filename (j, w) = (Inr f, (j1, w1))"
    and kc: "0 < key_count (s3_bucket j) f w"
    and nf: "fault w (ListObjectsV2 (s3_bucket j) f) = None"
  shows "upload_rhcos (j, w) =
           (Inr (),
            (j1, w1\<lparr>trace := trace w1 @
               [ListObjectsV2 (s3_bucket j) f,
                LogInfo (''Skipping upload because s3://'' @ s3_bucket j @ ''/'' @ f
                         @ '' already exists'')]\<rparr>))"
proof -
  have m: "step_meta (j, w) (j1, w1)" using keeps_meta_rhcos_filename f by (rule keepsD)
  then have u: "untraced w1 = untraced w" by (simp add: step_meta_def)
  have s3: "s3 w1 = s3 w" using u by (rule untraced_fields)
  have fl: "fault w1 = fault w" using u by (rule untraced_fields)
  have c: "cached (rhcos_filename_cache j1) = Some f" using f by (rule rhcos_filename_post)
  have kc1: "0 < key_count (s3_bucket j) f w1" using kc s3 by (simp add: key_count_def)
  have kc2: "0 < key_count (s3_bucket j) f (w1\<lparr>trace := t\<rparr>)" for t
    using kc1 by (simp add: key_count_def)
  show ?thesis
    using f nf fl kc2
    by (simp add: upload_rhcos_def seq_def get_job_def list_objects_v2_def provider_call_def
        emit_def set_world_def get_world_def ret_def info_def rhcos_filename_hit [OF c])
qed

lemma step_meta_fields:
  assumes "step_meta (j, w) (j1, w1)"
  shows "version j1 = version j" "s3_bucket j1 = s3_bucket j"
    "resolve j1 (http_get w) = resolve j (http_get w)"
    "untraced w1 = untraced w"
    "extends (meta_event (version j)) w w1"
  using assms by (simp_all add: step_meta_def job_frame_def)

text \<open>
  C3. Let \<open>f\<close> be the filename the job derives, let the bucket of the job hold an
  object with key \<open>f\<close>, and let the listing be answered. Then \<^verbatim>\<open>upload_rhcos\<close> returns
  after the listing and one log line: beyond what deriving the filename left (the
  request for the release text and the resolver's log line, if the fields were not
  cached yet) the trace gains exactly these two events. The bucket and the local files
  are as before, and the trace has no new download, file or upload event. A second call
  in the state the first one left does the same again.
\<close>

theorem upload_rhcos_existing_object:
  assumes f: "fst (rhcos_filename (j, w)) = Inr f"
    and ob: "\<exists>ob \<in> set (s3 w). obj_bucket ob = s3_bucket j \<and> obj_key ob = f"
    and nf: "fault w (ListObjectsV2 (s3_bucket j) f) = None"
  shows "upload_rhcos (j, w) =
           (Inr (),
            (fst (snd (rhcos_filename (j, w))),
             (snd (snd (rhcos_filename (j, w))))
               \<lparr>trace := trace (snd (snd (rhcos_filename (j, w))))
                          @ skip_upload_events (s3_bucket j) f\<rparr>))
     \<and> s3 (snd (snd (upload_rhcos (j, w)))) = s3 w
     \<and> fs (snd (snd (upload_rhcos (j, w)))) = fs w
     \<and> filter (transfer_event (version j)) (trace (snd (snd (upload_rhcos (j, w)))))
         = filter (transfer_event (version j)) (trace w)
     \<and> upload_rhcos (snd (upload_rhcos (j, w))) =
           (Inr (),
            (fst (snd (upload_rhcos (j, w))),
             (snd (snd (upload_rhcos (j, w))))
               \<lparr>trace := trace (snd (snd (upload_rhcos (j, w))))
                          @ skip_upload_events (s3_bucket j) f\<rparr>))"
proof -
  obtain j1 w1 where f1: "rhcos_filename (j, w) = (Inr f, (j1, w1))"
    using f by (cases "rhcos_filename (j, w)") auto
  from ob have kc: "0 < key_count (s3_bucket j) f w" using key_count_pos by blast
  have m: "step_meta (j, w) (j1, w1)" using keeps_meta_rhcos_filename f1 by (rule keepsD)
  note mf = step_meta_fields [OF m]
  have s3: "s3 w1 = s3 w" and fs: "fs w1 = fs w" and fl: "fault w1 = fault w"
    using mf(4) by (rule untraced_fields)+
  let ?w2 = "w1\<lparr>trace := trace w1 @ skip_upload_events (s3_bucket j) f\<rparr>"
  have first: "upload_rhcos (j, w) = (Inr (), (j1, ?w2))"
    using upload_rhcos_skip [OF f1 kc nf] by (simp add: skip_upload_events_def)
  have tr: "filter (transfer_event (version j)) (trace w1)
              = filter (transfer_event (version j)) (trace w)"
    using mf(5) by (rule extends_filter) (rule meta_not_transfer)
  have tr2: "filter (transfer_event (version j)) (trace ?w2)
              = filter (transfer_event (version j)) (trace w)"
    using tr by (simp add: skip_upload_events_def transfer_event_def)
  have c: "cached (rhcos_filename_cache j1) = Some f" using f1 by (rule rhcos_filename_post)
  have f2: "rhcos_filename (j1, ?w2) = (Inr f, (j1, ?w2))" using c by (rule rhcos_filename_hit)
  have kc2: "0 < key_count (s3_bucket j1) f ?w2"
    using kc s3 mf(2) by (simp add: key_count_def)
  have nf2: "fault ?w2 (ListObjectsV2 (s3_bucket j1) f) = None"
    using nf fl mf(2) by simp
  have second: "upload_rhcos (j1, ?w2) =
      (Inr (), (j1, ?w2\<lparr>trace := trace ?w2 @ skip_upload_events (s3_bucket j) f\<rparr>))"
    using upload_rhcos_skip [OF f2 kc2 nf2] mf(2) by (simp add: skip_upload_events_def)
  show ?thesis
    using first second s3 fs tr2 f1 by simp
qed

theorem upload_rhcos_existing_object_witness:
  "fst (rhcos_filename (OpenShiftRelease ''4.7.3'' bucket_name, staged_world))
     = Inr ''rhcos-47.83.202103251640-0-aws.x86_64.vmdk''
   \<and> map obj_key (filter (\<lambda>ob. obj_bucket ob = bucket_name) (s3 staged_world))
       = [''rhcos-47.83.202103251640-0-aws.x86_64.vmdk'']
   \<and> fault staged_world
        (ListObjectsV2 bucket_name ''rhcos-47.83.202103251640-0-aws.x86_64.vmdk'') = None
   \<and> fst (upload_rhcos (OpenShiftRelease ''4.7.3'' bucket_name, staged_world)) = Inr ()
   \<and> filter (transfer_event ''4.7.3'')
        (trace (snd (snd (upload_rhcos (OpenShiftRelease ''4.7.3'' bucket_name, staged_world)))))
       = []"
proof -
  let ?j = "OpenShiftRelease ''4.7.3'' bucket_name"
  let ?f = "''rhcos-47.83.202103251640-0-aws.x86_64.vmdk''"
  have a: "fst (rhcos_filename (?j, staged_world)) = Inr ?f" by code_simp
  have b: "\<exists>ob \<in> set (s3 staged_world). obj_bucket ob = s3_bucket ?j \<and> obj_key ob = ?f"
    by (simp add: staged_world_def OpenShiftRelease_def)
  have b': "map obj_key (filter (\<lambda>ob. obj_bucket ob = bucket_name) (s3 staged_world)) = [?f]"
    by (simp add: staged_world_def)
  have c: "fault staged_world (ListObjectsV2 (s3_bucket ?j) ?f) = None"
    by (simp add: staged_world_def small_download_world_def quiet_world_def)
  have c': "fault staged_world (ListObjectsV2 bucket_name ?f) = None"
    by (simp add: staged_world_def small_download_world_def quiet_world_def)
  have v: "version ?j = ''4.7.3''" by (simp add: OpenShiftRelease_def)
  have t0: "trace staged_world = []"
    by (simp add: staged_world_def small_download_world_def quiet_world_def)
  note th = upload_rhcos_existing_object [OF a b c]
  from th have d: "fst (upload_rhcos (?j, staged_world)) = Inr ()" by (metis fst_conv)
  from th have "filter (transfer_event (version ?j)) (trace (snd (snd (upload_rhcos (?j, staged_world)))))
         = filter (transfer_event (version ?j)) (trace staged_world)" by blast
  then have e: "filter (transfer_event ''4.7.3'') (trace (snd (snd (upload_rhcos (?j, staged_world))))) = []"
    by (simp add: v t0)
  from a b' c' d e show ?thesis by blast
qed

lemma stage_rest_fields:
  assumes "stage_rest w' = stage_rest w"
  shows "http_get w' = http_get w" "fault w' = fault w" "snapshots w' = snapshots w"
    "images w' = images w" "id_next w' = id_next w" "id_supply w' = id_supply w"
proof -
  have "http_get (stage_rest w') = http_get (stage_rest w)" using assms by simp
  then show "http_get w' = http_get w" by (simp add: stage_rest_def)
  have "fault (stage_rest w') = fault (stage_rest w)" using assms by simp
  then show "fault w' = fault w" by (simp add: stage_rest_def)
  have "snapshots (stage_rest w') = snapshots (stage_rest w)" using assms by simp
  then show "snapshots w' = snapshots w" by (simp add: stage_rest_def)
  have "images (stage_rest w') = images (stage_rest w)" using assms by simp
  then show "images w' = images w" by (simp add: stage_rest_def)
  have "id_next (stage_rest w') = id_next (stage_rest w)" using assms by simp
  then show "id_next w' = id_next w" by (simp add: stage_rest_def)
  have "id_supply (stage_rest w') = id_supply (stage_rest w)" using assms by simp
  then show "id_supply w' = id_supply w" by (simp add: stage_rest_def)
qed

lemma import_rest_fields:
  assumes "import_rest w' = import_rest w"
  shows "http_get w' = http_get w" "fault w' = fault w" "images w' = images w"
    "id_supply w' = id_supply w"
proof -
  have "http_get (import_rest w') = http_get (import_rest w)" using assms by simp
  then show "http_get w' = http_get w" by (simp add: import_rest_def)
  have "fault (import_rest w') = fault (import_rest w)" using assms by simp
  then show "fault w' = fault w" by (simp add: import_rest_def)
  have "images (import_rest w') = images (import_rest w)" using assms by simp
  then show "images w' = images w" by (simp add: import_rest_def)
  have "id_supply (import_rest w') = id_supply (import_rest w)" using assms by simp
  then show "id_supply w' = id_supply w" by (simp add: import_rest_def)
qed

lemma step_fields:
  assumes "step rest P (j, w) (j1, w1)"
  shows "version j1 = version j" "s3_bucket j1 = s3_bucket j"
    "resolve j1 (http_get w) = resolve j (http_get w)"
    "rest w1 = rest w"
    "extends P w w1"
  using assms by (simp_all add: step_def job_frame_def)

lemma stage_not_import: "stage_event ev \<Longrightarrow> \<not> is_import_snapshot ev"
  by (cases ev) (simp_all add: stage_event_def is_import_snapshot_def)

lemma keeps_stage_upload_rhcos: "keeps (step stage_rest stage_event) upload_rhcos"
  by (rule keeps_upload_rhcos [OF frame_ok_stage]) (simp_all add: stage_rest_def)

text \<open>What \<^verbatim>\<open>import_snapshot\<close> does after the staging when a tagged snapshot is there.\<close>

lemma import_snapshot_skip:
  assumes up: "upload_rhcos (j, w) = (Inr (), (j1, w1))"
    and res: "resolve j (http_get w) = Inr (Some v)"
    and ex: "tagged_snapshots v w = sn # rest"
  shows "import_snapshot (j, w) =
           (case fault w (DescribeSnapshots v) of
              Some m \<Rightarrow>
                (Inl (ClientError m),
                 (fst (snd (rhcos_version (j1, w1))),
                  log_event (DescribeSnapshots v) (snd (snd (rhcos_version (j1, w1))))))
            | None \<Rightarrow>
                (Inr (snap_id sn),
                 (fst (snd (rhcos_version (j1, w1))),
                  log_event (LogInfo (''Skipping snapshot creation because '' @ snap_id sn
                                      @ '' already exists''))
                    (log_event (DescribeSnapshots v) (snd (snd (rhcos_version (j1, w1))))))))"
proof -
  have st: "step stage_rest stage_event (j, w) (j1, w1)"
    using keeps_stage_upload_rhcos up by (rule keepsD)
  note sf = step_fields [OF st]
  have h1: "http_get w1 = http_get w" and fl1: "fault w1 = fault w"
    and sn1: "snapshots w1 = snapshots w"
    using sf(4) by (rule stage_rest_fields)+
  have "fst (rhcos_version (j1, w1)) = Inr (Some v)"
    using res sf(3) h1 by (simp add: rhcos_version_value)
  then obtain j2 w2 where rv: "rhcos_version (j1, w1) = (Inr (Some v), (j2, w2))"
    by (cases "rhcos_version (j1, w1)") auto
  have m: "step_meta (j1, w1) (j2, w2)" using keeps_meta_rhcos_version rv by (rule keepsD)
  note mf = step_meta_fields [OF m]
  have fl2: "fault w2 = fault w" and sn2: "snapshots w2 = snapshots w"
    using untraced_fields [OF mf(4)] fl1 sn1 by simp_all
  have c: "cached (rhcos_version_cache j2) = Some v" using rv by (rule rhcos_version_post)
  have ts: "tagged_snapshots v (w2\<lparr>trace := t\<rparr>) = sn # rest" for t
    using ex sn2 by (simp add: tagged_snapshots_def)
  show ?thesis
    using up rv fl2 ts
    by (simp add: import_snapshot_def seq_def get_job_def describe_snapshots_def
        provider_call_def emit_def set_world_def get_world_def ret_def raise_def info_def
        rhcos_version_hit [OF c] log_event_def split: option.split)
qed

text \<open>
  C2. For a job that resolves to the RHCOS version \<open>v\<close>, in a world where the own
  snapshots tagged \<^verbatim>\<open>rhcos_version = v\<close> are \<open>sn # rest\<close>: \<^verbatim>\<open>import_snapshot\<close> submits no
  import task, however it ends; and when the staging step returns and the listing is
  answered (so that there is a listing), it returns the id of \<open>sn\<close>, the first snapshot
  listed.
\<close>

theorem import_snapshot_existing:
  assumes rv0: "fst (rhcos_version (j, w)) = Inr (Some v)"
    and ex: "tagged_snapshots v w = sn # rest"
  shows "filter is_import_snapshot (trace (snd (snd (import_snapshot (j, w)))))
           = filter is_import_snapshot (trace w)
     \<and> (fst (upload_rhcos (j, w)) = Inr () \<and> fault w (DescribeSnapshots v) = None
          \<longrightarrow> fst (import_snapshot (j, w)) = Inr (snap_id sn))"
proof -
  have res: "resolve j (http_get w) = Inr (Some v)"
    using rv0 by (simp add: rhcos_version_value)
  obtain r j1 w1 where up: "upload_rhcos (j, w) = (r, (j1, w1))"
    by (cases "upload_rhcos (j, w)") auto
  have st: "step stage_rest stage_event (j, w) (j1, w1)"
    using keeps_stage_upload_rhcos up by (rule keepsD)
  note sf = step_fields [OF st]
  have t1: "filter is_import_snapshot (trace w1) = filter is_import_snapshot (trace w)"
    using sf(5) by (rule extends_filter) (rule stage_not_import)
  show ?thesis
  proof (cases r)
    case (Inl e)
    with up have "import_snapshot (j, w) = (Inl e, (j1, w1))"
      by (simp add: import_snapshot_def seq_def get_job_def)
    with t1 up Inl show ?thesis by simp
  next
    case (Inr u)
    with up have up': "upload_rhcos (j, w) = (Inr (), (j1, w1))" by simp
    obtain r2 j2 w2 where rv: "rhcos_version (j1, w1) = (r2, (j2, w2))"
      by (cases "rhcos_version (j1, w1)") auto
    have m: "step_meta (j1, w1) (j2, w2)" using keeps_meta_rhcos_version rv by (rule keepsD)
    have "extends stage_event w1 w2"
      using step_fields(5) [OF step_of_meta [OF frame_ok_stage m]] .
    then have t2: "filter is_import_snapshot (trace w2) = filter is_import_snapshot (trace w1)"
      by (rule extends_filter) (rule stage_not_import)
    note sk = import_snapshot_skip [OF up' res ex]
    show ?thesis
    proof (cases "fault w (DescribeSnapshots v)")
      case None
      with sk rv t1 t2 up' show ?thesis
        by (simp add: log_event_def is_import_snapshot_def)
    next
      case (Some m)
      with sk rv t1 t2 up' show ?thesis
        by (simp add: log_event_def is_import_snapshot_def)
    qed
  qed
qed

theorem import_snapshot_existing_witness:
  "fst (rhcos_version (OpenShiftRelease ''4.7.3'' bucket_name, snapshot_world))
     = Inr (Some ''47.83.202103251640-0'')
   \<and> map snap_id (tagged_snapshots ''47.83.202103251640-0'' snapshot_world) = [''snap-1'']
   \<and> fst (upload_rhcos (OpenShiftRelease ''4.7.3'' bucket_name, snapshot_world)) = Inr ()
   \<and> fault snapshot_world (DescribeSnapshots ''47.83.202103251640-0'') = None
   \<and> fst (import_snapshot (OpenShiftRelease ''4.7.3'' bucket_name, snapshot_world))
       = Inr ''snap-1''
   \<and> filter is_import_snapshot
        (trace (snd (snd (import_snapshot (OpenShiftRelease ''4.7.3'' bucket_name,
                                           snapshot_world))))) = []"
proof -
  let ?j = "OpenShiftRelease ''4.7.3'' bucket_name"
  let ?v = "''47.83.202103251640-0''"
  let ?sn = "\<lparr>snap_id = ''snap-1'', snap_owner_self = True,
              snap_tags = [(''rhcos_version'', ''47.83.202103251640-0'')]\<rparr>"
  have a: "fst (rhcos_version (?j, snapshot_world)) = Inr (Some ?v)" by code_simp
  have b: "tagged_snapshots ?v snapshot_world = ?sn # []" by code_simp
  have b': "map snap_id (tagged_snapshots ?v snapshot_world) = [''snap-1'']"
    by (simp add: b)
  have c: "fst (upload_rhcos (?j, snapshot_world)) = Inr ()" by code_simp
  have d: "fault snapshot_world (DescribeSnapshots ?v) = None" by code_simp
  have t0: "trace snapshot_world = []" by code_simp
  note th = import_snapshot_existing [OF a b]
  from th c d have e: "fst (import_snapshot (?j, snapshot_world)) = Inr ''snap-1''" by simp
  from th t0 have f: "filter is_import_snapshot
        (trace (snd (snd (import_snapshot (?j, snapshot_world))))) = []" by simp
  from a b' c d e f show ?thesis by blast
qed

lemma import_not_image_write: "import_event ev \<Longrightarrow> \<not> image_write ev"
  by (cases ev) (simp_all add: import_event_def stage_event_def image_write_def)

lemma keeps_import_import_snapshot: "keeps (step import_rest import_event) import_snapshot"
  by (rule keeps_import_snapshot [OF frame_ok_import]) (simp_all add: import_rest_def)

text \<open>
  After \<^verbatim>\<open>import_snapshot\<close> has returned, for a job that resolves to \<open>v\<close>: the world the
  image listing sees, and the version it asks with.
\<close>

lemma after_import:
  assumes imp: "import_snapshot (j, w) = (r, (j1, w1))"
    and res: "resolve j (http_get w) = Inr (Some v)"
  shows "images w1 = images w" "fault w1 = fault w" "id_supply w1 = id_supply w"
    "filter image_write (trace w1) = filter image_write (trace w)"
    "\<exists>j2 w2. rhcos_version (j1, w1) = (Inr (Some v), (j2, w2))
       \<and> cached (rhcos_version_cache j2) = Some v
       \<and> untraced w2 = untraced w1
       \<and> filter image_write (trace w2) = filter image_write (trace w)"
proof -
  have st: "step import_rest import_event (j, w) (j1, w1)"
    using keeps_import_import_snapshot imp by (rule keepsD)
  note sf = step_fields [OF st]
  show im: "images w1 = images w" and fl: "fault w1 = fault w"
    and ids: "id_supply w1 = id_supply w"
    using sf(4) by (rule import_rest_fields)+
  have h1: "http_get w1 = http_get w" using sf(4) by (rule import_rest_fields)
  show t1: "filter image_write (trace w1) = filter image_write (trace w)"
    using sf(5) by (rule extends_filter) (rule import_not_image_write)
  have "fst (rhcos_version (j1, w1)) = Inr (Some v)"
    using res sf(3) h1 by (simp add: rhcos_version_value)
  then obtain j2 w2 where rv: "rhcos_version (j1, w1) = (Inr (Some v), (j2, w2))"
    by (cases "rhcos_version (j1, w1)") auto
  have m: "step_meta (j1, w1) (j2, w2)" using keeps_meta_rhcos_version rv by (rule keepsD)
  note mf = step_meta_fields [OF m]
  have "extends import_event w1 w2"
    using step_fields(5) [OF step_of_meta [OF frame_ok_import m]] .
  then have "filter image_write (trace w2) = filter image_write (trace w1)"
    by (rule extends_filter) (rule import_not_image_write)
  with t1 have t2: "filter image_write (trace w2) = filter image_write (trace w)" by simp
  have c: "cached (rhcos_version_cache j2) = Some v" using rv by (rule rhcos_version_post)
  from rv c mf(4) t2
  show "\<exists>j2 w2. rhcos_version (j1, w1) = (Inr (Some v), (j2, w2))
       \<and> cached (rhcos_version_cache j2) = Some v
       \<and> untraced w2 = untraced w1
       \<and> filter image_write (trace w2) = filter image_write (trace w)"
    by blast
qed

text \<open>
  \<^verbatim>\<open>register_image\<close> for a job that resolves to \<open>v\<close> when an own image of the derived name
  is there: nothing is registered and no launch permission is touched, however the call
  ends; and it ends with the id of the first such image when the import stage returns
  and the listing is answered.
\<close>

lemma register_image_skip:
  assumes res: "resolve j (http_get w) = Inr (Some v)"
    and ex: "own_images (''rhcos-'' @ v) w = im # rest"
  shows "images (snd (snd (register_image (j, w)))) = images w"
    and "filter image_write (trace (snd (snd (register_image (j, w)))))
           = filter image_write (trace w)"
    and "fst (import_snapshot (j, w)) = Inr sid
         \<Longrightarrow> fault w (DescribeImages (''rhcos-'' @ v)) = None
         \<Longrightarrow> fst (register_image (j, w)) = Inr (image_id im)"
proof -
  obtain r j1 w1 where imp: "import_snapshot (j, w) = (r, (j1, w1))"
    by (cases "import_snapshot (j, w)") auto
  note ai = after_import [OF imp res]
  from ai(5) obtain j2 w2 where rv: "rhcos_version (j1, w1) = (Inr (Some v), (j2, w2))"
    and c: "cached (rhcos_version_cache j2) = Some v"
    and u2: "untraced w2 = untraced w1"
    and t2: "filter image_write (trace w2) = filter image_write (trace w)"
    by blast
  have im2: "images w2 = images w" and fl2: "fault w2 = fault w"
    using untraced_fields [OF u2] ai(1,2) by simp_all
  have oi: "own_images (''rhcos-'' @ v) (w2\<lparr>trace := t\<rparr>) = im # rest" for t
    using ex im2 by (simp add: own_images_def)
  have run: "register_image (j, w) =
      (case r of
         Inl e \<Rightarrow> (Inl e, (j1, w1))
       | Inr s \<Rightarrow>
           (case fault w (DescribeImages (''rhcos-'' @ v)) of
              Some m \<Rightarrow> (Inl (ClientError m), (j2, log_event (DescribeImages (''rhcos-'' @ v)) w2))
            | None \<Rightarrow>
                (Inr (image_id im),
                 (j2, log_event (LogInfo (''Skipping image creation because '' @ image_id im
                                          @ '' already exists''))
                        (log_event (DescribeImages (''rhcos-'' @ v)) w2)))))"
    using imp rv fl2 oi
    by (simp add: register_image_def seq_def describe_images_def
        provider_call_def emit_def set_world_def get_world_def ret_def raise_def info_def
        log_event_def split: option.split sum.split)
  show "images (snd (snd (register_image (j, w)))) = images w"
    using ai(1) im2 by (simp add: run log_event_def split: sum.split option.split)
  show "filter image_write (trace (snd (snd (register_image (j, w)))))
           = filter image_write (trace w)"
    using ai(4) t2 by (simp add: run log_event_def image_write_def split: sum.split option.split)
  show "fst (import_snapshot (j, w)) = Inr sid
         \<Longrightarrow> fault w (DescribeImages (''rhcos-'' @ v)) = None
         \<Longrightarrow> fst (register_image (j, w)) = Inr (image_id im)"
    using imp by (simp add: run)
qed

text \<open>
  C4. For a job that resolves to the RHCOS version \<open>v\<close>, in a world where the own images
  named rhcos-\<open>v\<close> are \<open>im # rest\<close>: \<^verbatim>\<open>register_image\<close> leaves the images (and with them
  every launch permission) as they are and makes no call that registers an image or
  modifies an image attribute, however it ends; and when the import stage returns and
  the image listing is answered, it returns the id of \<open>im\<close>.
\<close>

theorem register_image_existing:
  assumes rv0: "fst (rhcos_version (j, w)) = Inr (Some v)"
    and ex: "own_images (''rhcos-'' @ v) w = im # rest"
  shows "images (snd (snd (register_image (j, w)))) = images w
     \<and> filter image_write (trace (snd (snd (register_image (j, w)))))
           = filter image_write (trace w)
     \<and> (\<forall>sid. fst (import_snapshot (j, w)) = Inr sid
               \<and> fault w (DescribeImages (''rhcos-'' @ v)) = None
           \<longrightarrow> fst (register_image (j, w)) = Inr (image_id im))"
proof -
  have res: "resolve j (http_get w) = Inr (Some v)"
    using rv0 by (simp add: rhcos_version_value)
  from register_image_skip [OF res ex] show ?thesis by blast
qed

theorem register_image_existing_witness:
  "fst (rhcos_version (OpenShiftRelease ''4.7.3'' bucket_name, image_world))
     = Inr (Some ''47.83.202103251640-0'')
   \<and> map image_id (own_images (''rhcos-'' @ ''47.83.202103251640-0'') image_world) = [''ami-1'']
   \<and> fst (import_snapshot (OpenShiftRelease ''4.7.3'' bucket_name, image_world)) = Inr ''snap-1''
   \<and> fault image_world (DescribeImages (''rhcos-'' @ ''47.83.202103251640-0'')) = None
   \<and> fst (register_image (OpenShiftRelease ''4.7.3'' bucket_name, image_world)) = Inr ''ami-1''
   \<and> images (snd (snd (register_image (OpenShiftRelease ''4.7.3'' bucket_name, image_world))))
       = images image_world"
proof -
  let ?j = "OpenShiftRelease ''4.7.3'' bucket_name"
  let ?v = "''47.83.202103251640-0''"
  let ?im = "\<lparr>image_id = ''ami-1'', image_name = ''rhcos-47.83.202103251640-0'',
         image_description = ''OpenShift 4 47.83.202103251640-0'', image_snapshot = ''snap-1'',
         image_owner_self = True, image_public = True\<rparr>"
  have a: "fst (rhcos_version (?j, image_world)) = Inr (Some ?v)" by code_simp
  have b: "own_images (''rhcos-'' @ ?v) image_world = ?im # []" by code_simp
  have b': "map image_id (own_images (''rhcos-'' @ ?v) image_world) = [''ami-1'']"
    by (simp only: b list.map image.simps)
  have c: "fst (import_snapshot (?j, image_world)) = Inr ''snap-1''" by code_simp
  have d: "fault image_world (DescribeImages (''rhcos-'' @ ?v)) = None" by code_simp
  note th = register_image_existing [OF a b]
  from th c d have e: "fst (register_image (?j, image_world)) = Inr (image_id ?im)" by blast
  then have e': "fst (register_image (?j, image_world)) = Inr ''ami-1''" by simp
  from th have f: "images (snd (snd (register_image (?j, image_world)))) = images image_world"
    by blast
  from a b' c d e' f show ?thesis by blast
qed

lemma register_image_modify_fails:
  assumes res: "resolve j (http_get w) = Inr (Some v)"
    and imp: "fst (import_snapshot (j, w)) = Inr sid"
    and none: "own_images (''rhcos-'' @ v) w = []"
    and f1: "fault w (DescribeImages (''rhcos-'' @ v)) = None"
    and f2: "fault w (RegisterImage (''rhcos-'' @ v) (''OpenShift 4 '' @ v) sid) = None"
    and f3: "fault w (ModifyImageAttribute
               (id_supply w (id_next (snd (snd (import_snapshot (j, w))))))) = Some m"
  shows "fst (register_image (j, w)) = Inl (ClientError m)"
    and "images (snd (snd (register_image (j, w))))
           = images w @ [new_image (id_supply w (id_next (snd (snd (import_snapshot (j, w)))))) v sid]"
proof -
  obtain j1 w1 where imp1: "import_snapshot (j, w) = (Inr sid, (j1, w1))"
    using imp by (cases "import_snapshot (j, w)") auto
  note ai = after_import [OF imp1 res]
  from ai(5) obtain j2 w2 where rv: "rhcos_version (j1, w1) = (Inr (Some v), (j2, w2))"
    and c: "cached (rhcos_version_cache j2) = Some v"
    and u2: "untraced w2 = untraced w1"
    by blast
  have im2: "images w2 = images w" and fl2: "fault w2 = fault w"
    and ids2: "id_supply w2 = id_supply w" and idn2: "id_next w2 = id_next w1"
    using untraced_fields [OF u2] ai(1,2,3) by simp_all
  have oi: "own_images (''rhcos-'' @ v) (w2\<lparr>trace := t\<rparr>) = []" for t
    using none im2 by (simp add: own_images_def)
  have f3': "fault w (ModifyImageAttribute (id_supply w (id_next w1))) = Some m"
    using f3 imp1 by simp
  have run: "register_image (j, w) =
      (Inl (ClientError m),
       (j2, w2\<lparr>trace := trace w2 @
              [DescribeImages (''rhcos-'' @ v),
               LogInfo (''Registering image from snapshot '' @ sid),
               RegisterImage (''rhcos-'' @ v) (''OpenShift 4 '' @ v) sid,
               LogInfo (''Created image '' @ id_supply w (id_next w1)),
               LogInfo (''Making image '' @ id_supply w (id_next w1) @ '' public''),
               ModifyImageAttribute (id_supply w (id_next w1))],
             id_next := id_next w1 + 1,
             images := images w @ [new_image (id_supply w (id_next w1)) v sid]\<rparr>))"
    using imp1 rv fl2 oi f1 f2 f3' im2 ids2 idn2
    by (simp add: register_image_def seq_def describe_images_def ec2_register_image_def
        fresh_id_def modify_image_attribute_def
        provider_call_def emit_def set_world_def get_world_def ret_def raise_def info_def
        rhcos_version_hit [OF c] new_image_def)
  show "fst (register_image (j, w)) = Inl (ClientError m)" by (simp add: run)
  show "images (snd (snd (register_image (j, w))))
           = images w @ [new_image (id_supply w (id_next (snd (snd (import_snapshot (j, w)))))) v sid]"
    by (simp add: run imp1)
qed

lemma modify_is_image_write: "is_modify ev \<Longrightarrow> image_write ev"
  by (cases ev) (simp_all add: is_modify_def image_write_def)

lemma filter_narrow:
  assumes "filter Q xs = filter Q ys" "\<And>x. P x \<Longrightarrow> Q x"
  shows "filter P xs = filter P ys"
proof -
  have "filter P (filter Q xs) = filter P (filter Q ys)" using assms(1) by simp
  moreover have "(\<lambda>x. Q x \<and> P x) = P" using assms(2) by auto
  ultimately show ?thesis by (simp add: filter_filter)
qed

text \<open>
  C10. Let a job resolve to \<open>v\<close>, with no own image named rhcos-\<open>v\<close> yet, the import stage
  returning snapshot \<open>sid\<close>, the listing and the registration answered, and the change of
  the launch permission of the new image \<open>iid\<close> refused. Then \<^verbatim>\<open>register_image\<close> ends with
  that exception and the new image is there, private. From then on, in every world with
  these images and for every job that resolves to \<open>v\<close>, \<^verbatim>\<open>register_image\<close> leaves the images
  as they are (the image stays private), makes no call that modifies an image
  attribute, and returns \<open>iid\<close> whenever the import stage returns and the listing is
  answered.
\<close>

theorem register_image_not_atomic:
  assumes rv0: "fst (rhcos_version (j, w)) = Inr (Some v)"
    and imp: "fst (import_snapshot (j, w)) = Inr sid"
    and none: "own_images (''rhcos-'' @ v) w = []"
    and f1: "fault w (DescribeImages (''rhcos-'' @ v)) = None"
    and f2: "fault w (RegisterImage (''rhcos-'' @ v) (''OpenShift 4 '' @ v) sid) = None"
    and iid: "iid = id_supply w (id_next (snd (snd (import_snapshot (j, w)))))"
    and f3: "fault w (ModifyImageAttribute iid) = Some m"
  shows "fst (register_image (j, w)) = Inl (ClientError m)
     \<and> images (snd (snd (register_image (j, w)))) = images w @ [new_image iid v sid]
     \<and> (\<forall>j' w'. fst (rhcos_version (j', w')) = Inr (Some v)
                 \<and> images w' = images (snd (snd (register_image (j, w))))
           \<longrightarrow> images (snd (snd (register_image (j', w')))) = images w'
               \<and> filter is_modify (trace (snd (snd (register_image (j', w')))))
                   = filter is_modify (trace w')
               \<and> (\<forall>sid'. fst (import_snapshot (j', w')) = Inr sid'
                           \<and> fault w' (DescribeImages (''rhcos-'' @ v)) = None
                     \<longrightarrow> fst (register_image (j', w')) = Inr iid))"
proof -
  have res: "resolve j (http_get w) = Inr (Some v)"
    using rv0 by (simp add: rhcos_version_value)
  note first = register_image_modify_fails [OF res imp none f1 f2 f3 [unfolded iid]]
  have a: "fst (register_image (j, w)) = Inl (ClientError m)" by (rule first(1))
  have b: "images (snd (snd (register_image (j, w)))) = images w @ [new_image iid v sid]"
    using first(2) by (simp add: iid)
  have c: "images (snd (snd (register_image (j', w')))) = images w'
               \<and> filter is_modify (trace (snd (snd (register_image (j', w')))))
                   = filter is_modify (trace w')
               \<and> (\<forall>sid'. fst (import_snapshot (j', w')) = Inr sid'
                           \<and> fault w' (DescribeImages (''rhcos-'' @ v)) = None
                     \<longrightarrow> fst (register_image (j', w')) = Inr iid)"
    if rv': "fst (rhcos_version (j', w')) = Inr (Some v)"
      and im': "images w' = images (snd (snd (register_image (j, w))))" for j' w'
  proof -
    have res': "resolve j' (http_get w') = Inr (Some v)"
      using rv' by (simp add: rhcos_version_value)
    have ex: "own_images (''rhcos-'' @ v) w' = new_image iid v sid # []"
      using none im' b by (simp add: own_images_def new_image_def)
    note sk = register_image_skip [OF res' ex]
    have "filter is_modify (trace (snd (snd (register_image (j', w')))))
                   = filter is_modify (trace w')"
      using sk(2) by (rule filter_narrow) (rule modify_is_image_write)
    with sk(1) sk(3) show ?thesis by (simp add: new_image_def)
  qed
  from a b c show ?thesis by blast
qed

theorem register_image_not_atomic_witness:
  "fst (rhcos_version (OpenShiftRelease ''4.7.3'' bucket_name, denied_world))
     = Inr (Some ''47.83.202103251640-0'')
   \<and> fst (import_snapshot (OpenShiftRelease ''4.7.3'' bucket_name, denied_world)) = Inr ''snap-1''
   \<and> own_images (''rhcos-'' @ ''47.83.202103251640-0'') denied_world = []
   \<and> fault denied_world (ModifyImageAttribute ''id-'') = Some ''UnauthorizedOperation''
   \<and> fst (register_image (OpenShiftRelease ''4.7.3'' bucket_name, denied_world))
       = Inl (ClientError ''UnauthorizedOperation'')
   \<and> map image_public
        (images (snd (snd (register_image (OpenShiftRelease ''4.7.3'' bucket_name, denied_world)))))
       = [False]
   \<and> fst (register_image (OpenShiftRelease ''4.7.3'' bucket_name,
        (snd (snd (register_image (OpenShiftRelease ''4.7.3'' bucket_name, denied_world))))
          \<lparr>fault := (\<lambda>ev. None)\<rparr>)) = Inr ''id-''
   \<and> map image_public
        (images (snd (snd (register_image (OpenShiftRelease ''4.7.3'' bucket_name,
           (snd (snd (register_image (OpenShiftRelease ''4.7.3'' bucket_name, denied_world))))
             \<lparr>fault := (\<lambda>ev. None)\<rparr>)))))
       = [False]"
proof -
  let ?j = "OpenShiftRelease ''4.7.3'' bucket_name"
  let ?v = "''47.83.202103251640-0''"
  let ?w1 = "snd (snd (register_image (?j, denied_world)))"
  let ?w2 = "?w1\<lparr>fault := (\<lambda>ev. None)\<rparr>"
  have a: "fst (rhcos_version (?j, denied_world)) = Inr (Some ?v)" by code_simp
  have b: "fst (import_snapshot (?j, denied_world)) = Inr ''snap-1''" by code_simp
  have c: "own_images (''rhcos-'' @ ?v) denied_world = []" by code_simp
  have d: "fault denied_world (DescribeImages (''rhcos-'' @ ?v)) = None" by code_simp
  have e: "fault denied_world (RegisterImage (''rhcos-'' @ ?v) (''OpenShift 4 '' @ ?v) ''snap-1'')
             = None" by code_simp
  have f: "''id-'' = id_supply denied_world
                      (id_next (snd (snd (import_snapshot (?j, denied_world)))))"
    by code_simp
  have g: "fault denied_world (ModifyImageAttribute ''id-'') = Some ''UnauthorizedOperation''"
    by code_simp
  note th = register_image_not_atomic [OF a b c d e f g]
  from th have h: "fst (register_image (?j, denied_world)) = Inl (ClientError ''UnauthorizedOperation'')"
    by blast
  from th have i: "images ?w1 = images denied_world @ [new_image ''id-'' ?v ''snap-1'']"
    by blast
  have i0: "images denied_world = []" by code_simp
  from i i0 have i': "map image_public (images ?w1) = [False]"
    by (simp add: new_image_def)
  have a2: "fst (rhcos_version (?j, ?w2)) = Inr (Some ?v)" by code_simp
  have im2: "images ?w2 = images ?w1" by simp
  have b2: "fst (import_snapshot (?j, ?w2)) = Inr ''snap-1''" by code_simp
  have d2: "fault ?w2 (DescribeImages (''rhcos-'' @ ?v)) = None" by simp
  from th a2 im2 have k: "images (snd (snd (register_image (?j, ?w2)))) = images ?w2
      \<and> (\<forall>sid'. fst (import_snapshot (?j, ?w2)) = Inr sid'
                           \<and> fault ?w2 (DescribeImages (''rhcos-'' @ ?v)) = None
                     \<longrightarrow> fst (register_image (?j, ?w2)) = Inr ''id-'')"
    by blast
  from k b2 d2 have l: "fst (register_image (?j, ?w2)) = Inr ''id-''" by blast
  from k im2 i' have m: "map image_public (images (snd (snd (register_image (?j, ?w2))))) = [False]"
    by simp
  from a b c g h i' l m show ?thesis by blast
qed

subsection \<open>The loop over the versions\<close>

lemma register_not_processing: "register_event ev \<Longrightarrow> \<not> is_processing ev"
  by (cases ev)
    (simp_all add: register_event_def import_event_def stage_event_def is_processing_def)

lemma keeps_register_register_image: "keeps (step register_rest register_event) register_image"
  by (rule keeps_register_image [OF frame_ok_register]) (simp_all add: register_rest_def)

lemma is_processing_processing: "is_processing (processing v)"
  using startswith_append [of "''Processing OpenShift ''" v]
  by (simp add: is_processing_def processing_def)

lemma process_version_processing:
  "filter is_processing (trace (process_version v w))
     = filter is_processing (trace w) @ [processing v]"
proof -
  let ?w1 = "w\<lparr>trace := trace w @ [LogInfo (''Processing OpenShift '' @ v)]\<rparr>"
  obtain r j2 w2 where ri: "register_image (OpenShiftRelease v bucket_name, ?w1) = (r, (j2, w2))"
    by (cases "register_image (OpenShiftRelease v bucket_name, ?w1)") auto
  have "step register_rest register_event (OpenShiftRelease v bucket_name, ?w1) (j2, w2)"
    using keeps_register_register_image ri by (rule keepsD)
  then have "extends register_event ?w1 w2" by (rule step_fields)
  then have "filter is_processing (trace w2) = filter is_processing (trace ?w1)"
    by (rule extends_filter) (rule register_not_processing)
  also have "\<dots> = filter is_processing (trace w) @ [processing v]"
    using is_processing_processing [of v] by (simp add: processing_def)
  finally have a: "filter is_processing (trace w2)
                     = filter is_processing (trace w) @ [processing v]" .
  show ?thesis
  proof (cases r)
    case (Inl e)
    with ri a show ?thesis
      by (simp add: process_version_def Let_def is_processing_def)
  next
    case (Inr iid)
    with ri a show ?thesis
      by (simp add: process_version_def Let_def)
  qed
qed

lemma process_all_processing:
  "filter is_processing (trace (process_all vs w))
     = filter is_processing (trace w) @ map processing vs"
  by (induction vs arbitrary: w) (simp_all add: process_version_processing)

lemma process_all_append:
  "process_all (xs @ ys) w = process_all ys (process_all xs w)"
  by (induction xs arbitrary: w) simp_all

text \<open>
  The sort is outside the \<^verbatim>\<open>try\<close>. A release version is three runs of digits of any
  length, and \<^verbatim>\<open>int\<close> refuses a run of more than 4300: when the upgrade graph holds such a
  version, the sort raises ValueError and the script ends with status 1 after the
  discovery, no version processed.
\<close>

lemma split_on_none: "c \<notin> set xs \<Longrightarrow> split_on c xs = [xs]"
  by (induction xs) auto

lemma digit_not_space: "is_digit c \<Longrightarrow> \<not> is_space c"
  by (auto simp add: is_digit_def is_space_def)

lemma digit_not_dot: "is_digit c \<Longrightarrow> c \<noteq> CHR ''.''"
  by (auto simp add: is_digit_def)

lemma strip_digits:
  assumes "list_all is_digit s"
  shows "strip s = s"
proof -
  have d: "dropWhile is_space t = t" if "list_all is_digit t" for t
    using that by (cases t) (simp_all add: digit_not_space)
  have "list_all is_digit (rev s)" using assms by (simp add: list_all_iff)
  then show ?thesis using assms by (simp add: strip_def d)
qed

lemma py_int_digit_limit:
  assumes "digits s" and "int_max_str_digits < length s"
  shows "py_int s = None"
  using assms by (simp add: py_int_def digits_def strip_digits)

lemma main_digit_limit:
  assumes ds: "digits ds" and long: "int_max_str_digits < length ds"
    and g: "graph_nodes w ''stable-4.7'' = Inr [''4.7.'' @ ds, ''4.7.3'']"
  shows "main [''4.7''] w = (1, w\<lparr>trace := trace w @ [GetGraph ''stable-4.7'']\<rparr>)"
proof -
  have nd: "CHR ''.'' \<notin> set ds"
    using ds digit_not_dot by (auto simp add: digits_def list_all_iff)
  have sp: "split_on CHR ''.'' (''4.7.'' @ ds) = [''4'', ''7'', ds]"
    using nd by (simp add: split_on_none)
  have mm: "major_minor (''4.7.'' @ ds) = ''4.7''"
    using sp by (simp add: major_minor_def)
  have rv: "is_release_version (''4.7.'' @ ds)"
    using sp ds by (simp add: is_release_version_def dotted3_def digits_def is_digit_def)
  have ne: "''4.7.3'' \<noteq> ''4.7.'' @ ds"
    using long by (auto simp add: int_max_str_digits_def)
  have mm3: "major_minor ''4.7.3'' = ''4.7''" by code_simp
  have rv3: "is_release_version ''4.7.3''" by code_simp
  have sel: "collect_nodes [''4.7''] [''4.7.'' @ ds, ''4.7.3''] [] = [''4.7.'' @ ds, ''4.7.3'']"
    using mm rv ne mm3 rv3 by (simp add: collect_nodes_def)
  have p4: "py_int ''4'' = Some 4" by code_simp
  have p7: "py_int ''7'' = Some 7" by code_simp
  have key: "version_key (''4.7.'' @ ds) = None"
    using sp p4 p7 py_int_digit_limit [OF ds long] by (simp add: version_key_def)
  have srt: "sort_versions [''4.7.'' @ ds, ''4.7.3''] = Inl ValueError"
    using key by (simp add: sort_versions_def)
  have "discover [''4.7''] [''4.7''] [] w =
          (Inr [''4.7.'' @ ds, ''4.7.3''], w\<lparr>trace := trace w @ [GetGraph ''stable-4.7'']\<rparr>)"
    using g sel by (simp add: get_graph_def)
  then show ?thesis using srt by (simp add: main_def)
qed

text \<open>
  C8. The loop over the versions has no way out but its end: \<open>process_all\<close> is a total
  function into the world. Whatever the versions before \<open>v\<close> did, \<open>v\<close> is processed in the
  world they left and the versions after it in the world \<open>v\<close> left; an exception of
  \<^verbatim>\<open>register_image\<close> is logged as an error and nothing else happens to it; the lines
  "Processing OpenShift \<open>v\<close>" that a batch adds to the trace are exactly one per version,
  in order; and once the discovery and the sort have returned, the exit status is 0.
\<close>

theorem failure_isolation:
  "process_all (xs @ v # ys) w = process_all ys (process_version v (process_all xs w))
   \<and> (fst (register_image (OpenShiftRelease v bucket_name, log_event (processing v) w)) = Inl e
        \<longrightarrow> process_version v w =
              log_event (LogError e)
                (snd (snd (register_image
                   (OpenShiftRelease v bucket_name, log_event (processing v) w)))))
   \<and> filter is_processing (trace (process_all vs w))
       = filter is_processing (trace w) @ map processing vs
   \<and> (versions_to_upload \<noteq> []
        \<and> fst (discover versions_to_upload versions_to_upload [] w) = Inr found
        \<and> sort_versions found = Inr vs
        \<longrightarrow> main versions_to_upload w
             = (0, process_all vs (snd (discover versions_to_upload versions_to_upload [] w))))"
proof -
  have a: "process_all (xs @ v # ys) w = process_all ys (process_version v (process_all xs w))"
    by (simp add: process_all_append)
  have b: "fst (register_image (OpenShiftRelease v bucket_name, log_event (processing v) w)) = Inl e
        \<Longrightarrow> process_version v w =
              log_event (LogError e)
                (snd (snd (register_image
                   (OpenShiftRelease v bucket_name, log_event (processing v) w))))"
    by (cases "register_image (OpenShiftRelease v bucket_name, log_event (processing v) w)")
      (simp add: process_version_def Let_def log_event_def processing_def)
  have c: "versions_to_upload \<noteq> []
        \<and> fst (discover versions_to_upload versions_to_upload [] w) = Inr found
        \<and> sort_versions found = Inr vs
        \<Longrightarrow> main versions_to_upload w
             = (0, process_all vs (snd (discover versions_to_upload versions_to_upload [] w)))"
    by (cases "discover versions_to_upload versions_to_upload [] w") (simp add: main_def)
  from a b c process_all_processing show ?thesis by blast
qed

theorem failure_isolation_witness:
  "fst (discover [''4.7''] [''4.7''] [] batch_world) = Inr [''4.7.2'', ''4.7.10'', ''4.7.3'']
   \<and> sort_versions [''4.7.2'', ''4.7.10'', ''4.7.3''] = Inr [''4.7.10'', ''4.7.3'', ''4.7.2'']
   \<and> fst (register_image (OpenShiftRelease ''4.7.3'' bucket_name,
        log_event (processing ''4.7.3'')
          (process_all [''4.7.10''] (snd (discover [''4.7''] [''4.7''] [] batch_world)))))
       = Inl (FileSizeTooSmall 4)
   \<and> fst (main [''4.7''] batch_world) = 0
   \<and> filter is_processing (trace (snd (main [''4.7''] batch_world)))
       = [processing ''4.7.10'', processing ''4.7.3'', processing ''4.7.2'']
   \<and> LogError (FileSizeTooSmall 4) \<in> set (trace (snd (main [''4.7''] batch_world)))
   \<and> LogInfo ''Skipping image creation because ami-2 already exists''
       \<in> set (trace (snd (main [''4.7''] batch_world)))"
proof -
  let ?wd = "snd (discover [''4.7''] [''4.7''] [] batch_world)"
  let ?vs = "[''4.7.10'', ''4.7.3'', ''4.7.2'']"
  have a: "fst (discover [''4.7''] [''4.7''] [] batch_world) = Inr [''4.7.2'', ''4.7.10'', ''4.7.3'']"
    by code_simp
  have b: "sort_versions [''4.7.2'', ''4.7.10'', ''4.7.3''] = Inr ?vs"
    by code_simp
  have c: "fst (register_image (OpenShiftRelease ''4.7.3'' bucket_name,
        log_event (processing ''4.7.3'') (process_all [''4.7.10''] ?wd)))
       = Inl (FileSizeTooSmall 4)"
    by code_simp
  have n: "[''4.7''] \<noteq> ([] :: string list)" by simp
  note th = failure_isolation [of "[''4.7.10'']" "''4.7.3''" "[''4.7.2'']" ?wd
      "FileSizeTooSmall 4" ?vs "[''4.7'']" "[''4.7.2'', ''4.7.10'', ''4.7.3'']"]
  note th2 = failure_isolation [of "[]" "''4.7.3''" "[]" batch_world
      "FileSizeTooSmall 4" ?vs "[''4.7'']" "[''4.7.2'', ''4.7.10'', ''4.7.3'']"]
  from th2 n a b have m: "main [''4.7''] batch_world = (0, process_all ?vs ?wd)" by blast
  then have d: "fst (main [''4.7''] batch_world) = 0" by simp
  from th have "filter is_processing (trace (process_all ?vs ?wd))
       = filter is_processing (trace ?wd) @ map processing ?vs" by blast
  moreover have "filter is_processing (trace ?wd) = []" by code_simp
  ultimately have e: "filter is_processing (trace (snd (main [''4.7''] batch_world)))
       = [processing ''4.7.10'', processing ''4.7.3'', processing ''4.7.2'']"
    by (simp add: m)
  have "LogError (FileSizeTooSmall 4) \<in> set (trace (process_all ?vs ?wd))" by code_simp
  then have f: "LogError (FileSizeTooSmall 4) \<in> set (trace (snd (main [''4.7''] batch_world)))"
    by (simp add: m)
  have "LogInfo ''Skipping image creation because ami-2 already exists''
       \<in> set (trace (process_all ?vs ?wd))" by code_simp
  then have g: "LogInfo ''Skipping image creation because ami-2 already exists''
       \<in> set (trace (snd (main [''4.7''] batch_world)))"
    by (simp add: m)
  from a b c d e f g show ?thesis by blast
qed

subsection \<open>The poll loop and its deadline\<close>

lemma poll_once_pending:
  assumes "fst (task_status w tid (clock w)) \<noteq> ''completed''"
    and "fault w (DescribeImportSnapshotTasks tid) = None"
  shows "poll_once tid (j, w) =
           (Inr None,
            (j, w\<lparr>trace := trace w @
               [LogInfo (''Checking status of snapshot import task '' @ tid),
                DescribeImportSnapshotTasks tid,
                LogInfo (''Snapshot import task '' @ tid
                         @ '' not complete, waiting 10 seconds to try again'')]\<rparr>))"
  using assms
  by (simp add: poll_once_def describe_import_snapshot_tasks_def prim_defs Let_def)

text \<open>
  With \<open>n\<close> turns left until \<^verbatim>\<open>time_elapsed\<close> reaches 310, the loop makes exactly these \<open>n\<close>
  turns and raises.
\<close>

lemma poll_loop_pending:
  assumes "\<forall>c. fst (task_status w tid c) \<noteq> ''completed''"
    and "fault w (DescribeImportSnapshotTasks tid) = None"
    and "t + 10 * n = 310" and "n > 0"
  shows "poll_loop tid t (j, w) =
           (Inl (ImportTimedOut tid),
            (j, w\<lparr>clock := clock w + 10 * n,
                  trace := trace w @ concat (replicate n (poll_round tid))\<rparr>))"
  using assms
proof (induction n arbitrary: t w)
  case 0
  then show ?case by simp
next
  case (Suc n)
  let ?w1 = "w\<lparr>trace := trace w @
     [LogInfo (''Checking status of snapshot import task '' @ tid),
      DescribeImportSnapshotTasks tid,
      LogInfo (''Snapshot import task '' @ tid
               @ '' not complete, waiting 10 seconds to try again'')]\<rparr>"
  let ?w2 = "w\<lparr>clock := clock w + 10, trace := trace w @ poll_round tid\<rparr>"
  have once: "poll_once tid (j, w) = (Inr None, (j, ?w1))"
    using Suc.prems by (intro poll_once_pending) auto
  have sl: "sleep 10 (j, ?w1) = (Inr (), (j, ?w2))"
    by (simp add: sleep_def prim_defs poll_round_def)
  have step: "poll_loop tid t (j, w) =
      (if t + 10 > 300 then (Inl (ImportTimedOut tid), (j, ?w2))
       else poll_loop tid (t + 10) (j, ?w2))"
    using once sl by (subst poll_loop.simps) simp
  show ?case
  proof (cases "n = 0")
    case True
    with Suc.prems have "t = 300" by simp
    with True step show ?thesis by simp
  next
    case False
    with Suc.prems have t: "t + 10 \<le> 300" by simp
    have "poll_loop tid (t + 10) (j, ?w2) =
           (Inl (ImportTimedOut tid),
            (j, ?w2\<lparr>clock := clock ?w2 + 10 * n,
                  trace := trace ?w2 @ concat (replicate n (poll_round tid))\<rparr>))"
      using Suc.prems False by (intro Suc.IH) auto
    with t step show ?thesis by simp
  qed
qed

lemma stage_rest_more:
  assumes "stage_rest w' = stage_rest w"
  shows "clock w' = clock w" "task_status w' = task_status w"
proof -
  have "clock (stage_rest w') = clock (stage_rest w)" using assms by simp
  then show "clock w' = clock w" by (simp add: stage_rest_def)
  have "task_status (stage_rest w') = task_status (stage_rest w)" using assms by simp
  then show "task_status w' = task_status w" by (simp add: stage_rest_def)
qed

lemma stage_not_wait: "stage_event ev \<Longrightarrow> \<not> is_wait ev"
  by (cases ev) (simp_all add: stage_event_def is_wait_def)

text \<open>With the version cached, deriving the filename asks nothing and logs nothing.\<close>

lemma rhcos_filename_resolved:
  assumes "cached (rhcos_version_cache j) = Some v"
  shows "\<exists>f j'. rhcos_filename (j, w) = (Inr f, (j', w))
           \<and> cached (rhcos_filename_cache j') = Some f"
proof (cases "cached (rhcos_filename_cache j)")
  case (Some f)
  then show ?thesis by (auto simp: rhcos_filename_hit)
next
  case None
  then show ?thesis
    using assms by (simp add: rhcos_filename_def seq_def get_job_def set_job_def ret_def
        rhcos_version_hit [OF assms] Let_def)
qed

lemma import_snapshot_submit:
  assumes up: "upload_rhcos (j, w) = (Inr (), (j1, w1))"
    and res: "resolve j (http_get w) = Inr (Some v)"
    and none: "tagged_snapshots v w = []"
    and f1: "fault w (DescribeSnapshots v) = None"
    and f2: "\<And>k. fault w (ImportSnapshot (''rhcos-'' @ v) (s3_bucket j) k) = None"
  shows "\<exists>j3 w3. import_snapshot (j, w) = poll_loop (id_supply w (id_next w)) 0 (j3, w3)
           \<and> task_status w3 = task_status w \<and> fault w3 = fault w \<and> clock w3 = clock w
           \<and> filter is_wait (trace w3) = filter is_wait (trace w)"
proof -
  have st: "step stage_rest stage_event (j, w) (j1, w1)"
    using keeps_stage_upload_rhcos up by (rule keepsD)
  note sf = step_fields [OF st]
  have h1: "http_get w1 = http_get w" and fl1: "fault w1 = fault w"
    and sn1: "snapshots w1 = snapshots w" and idn1: "id_next w1 = id_next w"
    and ids1: "id_supply w1 = id_supply w"
    using sf(4) by (rule stage_rest_fields)+
  have cl1: "clock w1 = clock w" and ts1: "task_status w1 = task_status w"
    using sf(4) by (rule stage_rest_more)+
  have t1: "filter is_wait (trace w1) = filter is_wait (trace w)"
    using sf(5) by (rule extends_filter) (rule stage_not_wait)
  have "fst (rhcos_version (j1, w1)) = Inr (Some v)"
    using res sf(3) h1 by (simp add: rhcos_version_value)
  then obtain j2 w2 where rv: "rhcos_version (j1, w1) = (Inr (Some v), (j2, w2))"
    by (cases "rhcos_version (j1, w1)") auto
  have m: "step_meta (j1, w1) (j2, w2)" using keeps_meta_rhcos_version rv by (rule keepsD)
  note mf = step_meta_fields [OF m]
  note uf = untraced_fields [OF mf(4)]
  have fl2: "fault w2 = fault w" and sn2: "snapshots w2 = snapshots w"
    and idn2: "id_next w2 = id_next w" and ids2: "id_supply w2 = id_supply w"
    and cl2: "clock w2 = clock w" and ts2: "task_status w2 = task_status w"
    using uf fl1 sn1 idn1 ids1 cl1 ts1 by simp_all
  have "extends stage_event w1 w2"
    using step_fields(5) [OF step_of_meta [OF frame_ok_stage m]] .
  then have "filter is_wait (trace w2) = filter is_wait (trace w1)"
    by (rule extends_filter) (rule stage_not_wait)
  with t1 have t2: "filter is_wait (trace w2) = filter is_wait (trace w)" by simp
  have c: "cached (rhcos_version_cache j2) = Some v" using rv by (rule rhcos_version_post)
  have ts: "tagged_snapshots v (w2\<lparr>trace := t\<rparr>) = []" for t
    using none sn2 by (simp add: tagged_snapshots_def)
  let ?w2a = "w2\<lparr>trace := trace w2 @ [DescribeSnapshots v]\<rparr>"
  obtain f j3 where fn: "rhcos_filename (j2, ?w2a) = (Inr f, (j3, ?w2a))"
    and fc: "cached (rhcos_filename_cache j3) = Some f"
    using rhcos_filename_resolved [OF c] by blast
  let ?w3 = "w2\<lparr>trace := trace w2 @
                [DescribeSnapshots v,
                 LogInfo (''Importing snapshot from s3://'' @ s3_bucket j @ ''/'' @ f),
                 ImportSnapshot (''rhcos-'' @ v) (s3_bucket j) f],
               id_next := id_next w + 1\<rparr>"
  have run: "import_snapshot (j, w) = poll_loop (id_supply w (id_next w)) 0 (j3, ?w3)"
    using up rv fl2 ts fn f1 f2 [of f] idn2 ids2
    by (simp add: import_snapshot_def seq_def get_job_def describe_snapshots_def
        ec2_import_snapshot_def fresh_id_def
        provider_call_def emit_def set_world_def get_world_def ret_def raise_def info_def
        rhcos_version_hit [OF c] rhcos_filename_hit [OF fc])
  have "task_status ?w3 = task_status w \<and> fault ?w3 = fault w \<and> clock ?w3 = clock w
           \<and> filter is_wait (trace ?w3) = filter is_wait (trace w)"
    using ts2 fl2 cl2 t2 by (simp add: is_wait_def)
  with run show ?thesis by blast
qed

text \<open>
  C1. Let the staging step return, the job resolve to \<open>v\<close> with no own snapshot tagged
  \<open>v\<close>, and the provider accept the listing and the import request, handing out the
  task id \<open>tid\<close>. If every status call for \<open>tid\<close> is answered and no answer is
  "completed", \<^verbatim>\<open>import_snapshot\<close> asks for the status 31 times, sleeps 10 seconds after
  each answer, and then raises the timeout: the seconds slept are 310, more than the 300
  of the deadline and no more than one interval past it, and nothing is raised before.
\<close>

theorem import_snapshot_timeout:
  assumes up: "fst (upload_rhcos (j, w)) = Inr ()"
    and rv0: "fst (rhcos_version (j, w)) = Inr (Some v)"
    and none: "tagged_snapshots v w = []"
    and f1: "fault w (DescribeSnapshots v) = None"
    and f2: "\<forall>k. fault w (ImportSnapshot (''rhcos-'' @ v) (s3_bucket j) k) = None"
    and tid: "tid = id_supply w (id_next w)"
    and never: "\<forall>c. fst (task_status w tid c) \<noteq> ''completed''"
    and f3: "fault w (DescribeImportSnapshotTasks tid) = None"
  shows "fst (import_snapshot (j, w)) = Inl (ImportTimedOut tid)
     \<and> clock (snd (snd (import_snapshot (j, w)))) = clock w + 310
     \<and> filter is_wait (trace (snd (snd (import_snapshot (j, w)))))
         = filter is_wait (trace w)
           @ concat (replicate 31 [DescribeImportSnapshotTasks tid, Sleep 10])
     \<and> 60 * 5 < clock (snd (snd (import_snapshot (j, w)))) - clock w
     \<and> clock (snd (snd (import_snapshot (j, w)))) - clock w \<le> 60 * 5 + 10"
proof -
  have res: "resolve j (http_get w) = Inr (Some v)"
    using rv0 by (simp add: rhcos_version_value)
  obtain j1 w1 where up1: "upload_rhcos (j, w) = (Inr (), (j1, w1))"
    using up by (cases "upload_rhcos (j, w)") auto
  from import_snapshot_submit [OF up1 res none f1] f2
  obtain j3 w3 where run: "import_snapshot (j, w) = poll_loop tid 0 (j3, w3)"
    and ts: "task_status w3 = task_status w" and fl: "fault w3 = fault w"
    and cl: "clock w3 = clock w"
    and tr: "filter is_wait (trace w3) = filter is_wait (trace w)"
    unfolding tid by blast
  have "poll_loop tid 0 (j3, w3) =
           (Inl (ImportTimedOut tid),
            (j3, w3\<lparr>clock := clock w3 + 10 * 31,
                   trace := trace w3 @ concat (replicate 31 (poll_round tid))\<rparr>))"
    using never f3 ts fl by (intro poll_loop_pending) auto
  moreover have "filter is_wait (concat (replicate n (poll_round tid)))
                   = concat (replicate n [DescribeImportSnapshotTasks tid, Sleep 10])" for n
    by (induction n) (simp_all add: poll_round_def is_wait_def)
  ultimately show ?thesis using run cl tr by simp
qed

theorem import_snapshot_timeout_witness:
  "fst (upload_rhcos (OpenShiftRelease ''4.7.3'' bucket_name, staged_world)) = Inr ()
   \<and> fst (rhcos_version (OpenShiftRelease ''4.7.3'' bucket_name, staged_world))
       = Inr (Some ''47.83.202103251640-0'')
   \<and> tagged_snapshots ''47.83.202103251640-0'' staged_world = []
   \<and> ''id-'' = id_supply staged_world (id_next staged_world)
   \<and> fault staged_world (DescribeImportSnapshotTasks ''id-'') = None
   \<and> fst (import_snapshot (OpenShiftRelease ''4.7.3'' bucket_name, staged_world))
       = Inl (ImportTimedOut ''id-'')
   \<and> clock (snd (snd (import_snapshot (OpenShiftRelease ''4.7.3'' bucket_name, staged_world))))
       = 310"
proof -
  let ?j = "OpenShiftRelease ''4.7.3'' bucket_name"
  let ?v = "''47.83.202103251640-0''"
  have a: "fst (upload_rhcos (?j, staged_world)) = Inr ()" by code_simp
  have b: "fst (rhcos_version (?j, staged_world)) = Inr (Some ?v)" by code_simp
  have c: "tagged_snapshots ?v staged_world = []" by code_simp
  have d: "fault staged_world (DescribeSnapshots ?v) = None" by code_simp
  have e: "\<forall>k. fault staged_world (ImportSnapshot (''rhcos-'' @ ?v) (s3_bucket ?j) k) = None"
    by (simp add: staged_world_def small_download_world_def quiet_world_def)
  have f: "''id-'' = id_supply staged_world (id_next staged_world)" by code_simp
  have g: "\<forall>c. fst (task_status staged_world ''id-'' c) \<noteq> ''completed''"
    by (simp add: staged_world_def small_download_world_def quiet_world_def)
  have h: "fault staged_world (DescribeImportSnapshotTasks ''id-'') = None" by code_simp
  have k: "clock staged_world = 0" by code_simp
  note th = import_snapshot_timeout [OF a b c d e f g h]
  from th have l: "fst (import_snapshot (?j, staged_world)) = Inl (ImportTimedOut ''id-'')"
    by blast
  from th k have m: "clock (snd (snd (import_snapshot (?j, staged_world)))) = 310"
    by simp
  from a b c f h l m show ?thesis by blast
qed

subsection \<open>Selecting and ordering the releases\<close>

text \<open>
  C7. When the upgrade graph answers for channel stable-4.7 with the nodes 4.7.3, 4.7.10,
  4.7.2-rc.1 and 4.8.0, the discoverer asked for 4.7 selects 4.7.3 and 4.7.10, in this
  order, and the sort puts 4.7.10 first: the keys are compared as lists of numbers.
\<close>

theorem discover_example:
  assumes "graph_nodes w ''stable-4.7'' = Inr [''4.7.3'', ''4.7.10'', ''4.7.2-rc.1'', ''4.8.0'']"
  shows "discover [''4.7''] [''4.7''] [] w =
           (Inr [''4.7.3'', ''4.7.10''], w\<lparr>trace := trace w @ [GetGraph ''stable-4.7'']\<rparr>)
         \<and> sort_versions [''4.7.3'', ''4.7.10''] = Inr [''4.7.10'', ''4.7.3'']
         \<and> \<not> is_release_version ''4.7.2-rc.1''
         \<and> major_minor ''4.8.0'' \<notin> set [''4.7'']
         \<and> version_key ''4.7.10'' = Some [4, 7, 10]
         \<and> version_key ''4.7.3'' = Some [4, 7, 3]"
proof -
  have sel: "collect_nodes [''4.7''] [''4.7.3'', ''4.7.10'', ''4.7.2-rc.1'', ''4.8.0''] []
               = [''4.7.3'', ''4.7.10'']"
    by code_simp
  have srt: "sort_versions [''4.7.3'', ''4.7.10''] = Inr [''4.7.10'', ''4.7.3'']"
    by code_simp
  have rc: "\<not> is_release_version ''4.7.2-rc.1''"
    by code_simp
  have mm: "major_minor ''4.8.0'' \<notin> set [''4.7'']"
    by code_simp
  have k1: "version_key ''4.7.10'' = Some [4, 7, 10]"
    by code_simp
  have k2: "version_key ''4.7.3'' = Some [4, 7, 3]"
    by code_simp
  have "discover [''4.7''] [''4.7''] [] w =
           (Inr [''4.7.3'', ''4.7.10''], w\<lparr>trace := trace w @ [GetGraph ''stable-4.7'']\<rparr>)"
    using assms sel by (simp add: get_graph_def)
  with srt rc mm k1 k2 show ?thesis by blast
qed

theorem discover_example_witness:
  "graph_nodes graph_world ''stable-4.7'' = Inr [''4.7.3'', ''4.7.10'', ''4.7.2-rc.1'', ''4.8.0'']
   \<and> fst (discover [''4.7''] [''4.7''] [] graph_world) = Inr [''4.7.3'', ''4.7.10'']
   \<and> fst (main [''4.7''] graph_world) = 0"
proof -
  have g: "graph_nodes graph_world ''stable-4.7''
             = Inr [''4.7.3'', ''4.7.10'', ''4.7.2-rc.1'', ''4.8.0'']"
    by (simp add: graph_world_def quiet_world_def)
  from discover_example [OF g] have
    d: "discover [''4.7''] [''4.7''] [] graph_world =
          (Inr [''4.7.3'', ''4.7.10''],
           graph_world\<lparr>trace := trace graph_world @ [GetGraph ''stable-4.7'']\<rparr>)"
    and s: "sort_versions [''4.7.3'', ''4.7.10''] = Inr [''4.7.10'', ''4.7.3'']"
    by blast+
  show ?thesis using g d s by (simp add: main_def)
qed

end
